theory Spec2Isabelle
  imports Complex_Main
begin

section \<open>Python values\<close>

text \<open>
  The values that flow through the watcher and its store are the values \<open>json.loads\<close>
  can produce: \<open>None\<close>, booleans, unbounded integers, floats, strings, lists and
  dictionaries with string keys. A dictionary is an association list in insertion order;
  a key occurs at most once in a dictionary built by the operations below.
  Floats are modelled by real numbers: the rounding of floating-point arithmetic is not
  part of the model.
\<close>

datatype pyval =
    PNone
  | PBool bool
  | PInt int
  | PFloat real
  | PStr string
  | PList "pyval list"
  | PDict "(string \<times> pyval) list"

text \<open>Exceptions, by class; \<open>KeyError\<close> carries the missing key.\<close>

datatype exn =
    FileNotFoundError
  | FileExistsError
  | PermissionError
  | OSError
  | UnicodeDecodeError
  | JSONDecodeError
  | KeyError string
  | TypeError
  | AttributeError
  | RuntimeError

subsection \<open>Decimal rendering of integers (\<open>f"{n}"\<close>)\<close>

definition digit_char :: "nat \<Rightarrow> char" where
  "digit_char d =
     (if d = 0 then CHR ''0'' else if d = 1 then CHR ''1'' else if d = 2 then CHR ''2''
      else if d = 3 then CHR ''3'' else if d = 4 then CHR ''4'' else if d = 5 then CHR ''5''
      else if d = 6 then CHR ''6'' else if d = 7 then CHR ''7'' else if d = 8 then CHR ''8''
      else CHR ''9'')"

fun str_nat :: "nat \<Rightarrow> string" where
  "str_nat n = (if n < 10 then [digit_char n] else str_nat (n div 10) @ [digit_char (n mod 10)])"

declare str_nat.simps [simp del]

definition str_int :: "int \<Rightarrow> string" where
  "str_int i = (if i < 0 then CHR ''-'' # str_nat (nat (- i)) else str_nat (nat i))"

section \<open>Duration formatter (\<open>utils/utils.py\<close>)\<close>

text \<open>
  \<open>isinstance(seconds, int)\<close>: in Python \<open>bool\<close> is a subclass of \<open>int\<close>, so
  \<open>True\<close> and \<open>False\<close> pass the test and take part in the arithmetic as 1 and 0.
\<close>

fun as_int :: "pyval \<Rightarrow> int option" where
  "as_int (PInt i) = Some i"
| "as_int (PBool b) = Some (if b then 1 else 0)"
| "as_int _ = None"

definition format_playtime :: "pyval \<Rightarrow> string" where
  "format_playtime v =
     (case as_int v of
        None \<Rightarrow> ''0s''
      | Some seconds \<Rightarrow>
          if seconds < 0 then ''0s''
          else
            let hours = seconds div 3600;
                remaining_seconds = seconds mod 3600;
                minutes = remaining_seconds div 60;
                secs = remaining_seconds mod 60
            in if hours > 0 then
                 (if secs = 0 then str_int hours @ ''h'' @ str_int minutes @ ''m''
                  else str_int hours @ ''h'' @ str_int minutes @ ''m'' @ str_int secs @ ''s'')
               else if minutes > 0 then
                 (if secs = 0 then str_int minutes @ ''m''
                  else str_int minutes @ ''m'' @ str_int secs @ ''s'')
               else str_int secs @ ''s'')"

text \<open>
  The formatter as the specification words it: rule 1 (invalid input), rule 2 (the
  decomposition, with \<open>secs = seconds mod 60\<close>), rules 3 to 5 (the three shapes, the
  seconds appended only when they are not zero).
\<close>

definition valid_seconds :: "pyval \<Rightarrow> int option" where
  "valid_seconds v =
     (case as_int v of None \<Rightarrow> None | Some n \<Rightarrow> if 0 \<le> n then Some n else None)"

definition format_spec :: "pyval \<Rightarrow> string" where
  "format_spec v =
     (case valid_seconds v of
        None \<Rightarrow> ''0s''
      | Some seconds \<Rightarrow>
          let hours = seconds div 3600;
              minutes = (seconds mod 3600) div 60;
              secs = seconds mod 60;
              tail = (if secs \<noteq> 0 then str_int secs @ ''s'' else [])
          in if hours > 0 then str_int hours @ ''h'' @ str_int minutes @ ''m'' @ tail
             else if minutes > 0 then str_int minutes @ ''m'' @ tail
             else str_int secs @ ''s'')"

section \<open>Dictionaries\<close>

text \<open>
  A Python \<open>dict\<close> keeps its keys in insertion order. Assigning to a key that is present
  replaces the value in place; assigning to a new key appends it. \<open>pop\<close> removes the
  key.
\<close>

fun dict_set :: "('k \<times> 'v) list \<Rightarrow> 'k \<Rightarrow> 'v \<Rightarrow> ('k \<times> 'v) list" where
  "dict_set [] k v = [(k, v)]"
| "dict_set ((k', v') # d) k v = (if k' = k then (k, v) # d else (k', v') # dict_set d k v)"

definition dict_pop :: "('k \<times> 'v) list \<Rightarrow> 'k \<Rightarrow> ('k \<times> 'v) list" where
  "dict_pop d k = filter (\<lambda>p. fst p \<noteq> k) d"

definition dict_keys :: "('k \<times> 'v) list \<Rightarrow> 'k list" where
  "dict_keys d = map fst d"

text \<open>\<open>d.setdefault(k, v)\<close>: the dictionary afterwards, and the value now stored under \<open>k\<close>.\<close>

definition setdefault :: "('k \<times> 'v) list \<Rightarrow> 'k \<Rightarrow> 'v \<Rightarrow> ('k \<times> 'v) list \<times> 'v" where
  "setdefault d k v = (case map_of d k of Some x \<Rightarrow> (d, x) | None \<Rightarrow> (d @ [(k, v)], v))"

section \<open>The environment\<close>

text \<open>
  The standard-library functions the watcher calls are parameters of the model:
  \<open>json.loads\<close>, \<open>json.dumps\<close>, the two \<open>strftime\<close> formats applied to a local time
  (\<open>%Y-%m-%d %H:%M:%S\<close> and \<open>%Y-%m-%d\<close>) and \<open>Path(p).name.lower()\<close>.
\<close>

record pylib =
  json_loads :: "string \<Rightarrow> exn + pyval"
  json_dumps :: "pyval \<Rightarrow> exn + string"
  strftime_datetime :: "real \<Rightarrow> string"
  strftime_date :: "real \<Rightarrow> string"
  path_name_lower :: "string \<Rightarrow> string"

text \<open>
  One entry of the list \<open>psutil.process_iter(["pid", "name", "exe"])\<close> yields: a process
  whose \<open>info\<close> is read (\<open>exe\<close> may be \<open>None\<close> or empty), a process whose inspection
  raises \<open>NoSuchProcess\<close>, \<open>AccessDenied\<close> or \<open>ZombieProcess\<close>, or one whose
  inspection raises any other exception.
\<close>

datatype proc =
    Proc (pid: "nat option") (pname: string) (exe: "string option")
  | ProcGone
  | ProcBroken exn

text \<open>
  The lines handed to \<open>_log\<close> (and, for the last constructor, printed by the monitor
  loop of \<open>main.py\<close>), one constructor per call site, with the values the message
  interpolates. The shutdown line interpolates \<open>format_playtime(duration)\<close>; the event
  keeps the integer \<open>duration\<close> and \<open>shutdown_message\<close> renders the line.
\<close>

datatype event =
    Initialized
  | MonitoredCount nat
  | DataFilePath
  | LoadWarning exn
  | SaveError exn
  | TraverseWarning exn
  | Startup string string "nat option" string
  | Shutdown string string int
  | MonitorException exn

definition startup_message :: "string \<Rightarrow> string \<Rightarrow> nat option \<Rightarrow> string \<Rightarrow> string" where
  "startup_message exe_filename game_name p game_exe_path =
     ''Detected process startup: '' @ exe_filename @ '' ('' @ game_name @ '')'' @ [CHR 0x0A]
     @ ''  - Process PID: '' @ (case p of None \<Rightarrow> ''Unknown'' | Some n \<Rightarrow> str_nat n) @ [CHR 0x0A]
     @ ''  - Game path: '' @ game_exe_path"

definition shutdown_message :: "string \<Rightarrow> string \<Rightarrow> int \<Rightarrow> string" where
  "shutdown_message exe_filename game_name duration =
     ''Detected process shutdown: '' @ exe_filename @ '' ('' @ game_name
     @ ''), this session: '' @ format_playtime (PInt duration)"

text \<open>
  The data directory \<open>base_dir/data\<close>: absent, or present with the content of
  \<open>playtime.json\<close> (\<open>None\<close> when the file does not exist).
\<close>

datatype datadir = NoDir | Dir "string option"

text \<open>
  What the operating system does with one call of \<open>write_text\<close> on an existing
  directory: it writes the text; it refuses to open the file, which stays as it was; or
  it opens the file for writing, which truncates it, and fails after some characters.
\<close>

datatype write_outcome = WriteOk | WriteRefused exn | WriteBroken exn nat

text \<open>
  The world the watcher runs in. The system clock is the sequence of its readings, one
  consumed by each call of \<open>time.time()\<close> or \<open>datetime.now()\<close> that the model follows
  (the console timestamp of \<open>_log\<close> is not one of them: the console text is not
  modelled). Nothing is assumed of the readings: the clock may stand still or step back.
  The outcomes of reads and writes of the data file are sequences too, indexed by the
  number of file operations made so far.
\<close>

record world =
  disk :: datadir
  mkdir_err :: "exn option"
  read_errs :: "nat \<Rightarrow> exn option"
  write_outs :: "nat \<Rightarrow> write_outcome"
  io_count :: nat
  clock :: "nat \<Rightarrow> real"
  clock_reads :: nat
  log :: "event list"

definition data_file :: "world \<Rightarrow> string option" where
  "data_file w = (case disk w of NoDir \<Rightarrow> None | Dir f \<Rightarrow> f)"

definition time_time :: "world \<Rightarrow> real \<times> world" where
  "time_time w = (clock w (clock_reads w), w\<lparr>clock_reads := Suc (clock_reads w)\<rparr>)"

definition read_text :: "world \<Rightarrow> (exn + string) \<times> world" where
  "read_text w =
     (let k = io_count w; w' = w\<lparr>io_count := Suc k\<rparr>
      in case data_file w of
           None \<Rightarrow> (Inl FileNotFoundError, w')
         | Some txt \<Rightarrow>
             (case read_errs w k of Some e \<Rightarrow> (Inl e, w') | None \<Rightarrow> (Inr txt, w')))"

definition write_text :: "string \<Rightarrow> world \<Rightarrow> (exn + unit) \<times> world" where
  "write_text txt w =
     (let k = io_count w; w' = w\<lparr>io_count := Suc k\<rparr>
      in case disk w of
           NoDir \<Rightarrow> (Inl FileNotFoundError, w')
         | Dir f \<Rightarrow>
             (case write_outs w k of
                WriteOk \<Rightarrow> (Inr (), w'\<lparr>disk := Dir (Some txt)\<rparr>)
              | WriteRefused e \<Rightarrow> (Inl e, w')
              | WriteBroken e n \<Rightarrow> (Inl e, w'\<lparr>disk := Dir (Some (take n txt))\<rparr>)))"

text \<open>\<open>Path.mkdir(exist_ok=True)\<close> on the data directory.\<close>

definition mkdir :: "world \<Rightarrow> (exn + unit) \<times> world" where
  "mkdir w =
     (case disk w of
        Dir f \<Rightarrow> (Inr (), w)
      | NoDir \<Rightarrow>
          (case mkdir_err w of Some e \<Rightarrow> (Inl e, w) | None \<Rightarrow> (Inr (), w\<lparr>disk := Dir None\<rparr>)))"

section \<open>The process watcher (\<open>steam/process_watcher.py\<close>)\<close>

text \<open>
  The catalog \<open>games\<close> maps a lowercase executable filename to the entry the scanner
  built for it; \<open>running\<close> maps the filenames of the sessions in progress to their start
  timestamps.
\<close>

record game =
  name :: string
  appid :: string
  exe_path :: string

type_synonym catalog = "(string \<times> game) list"

record watcher =
  games :: catalog
  running :: "(string \<times> real) list"

definition pw_log :: "event \<Rightarrow> world \<Rightarrow> world" where
  "pw_log ev w = w\<lparr>log := log w @ [ev]\<rparr>"

text \<open>\<open>__init__\<close>: an exception of \<open>mkdir\<close> or of the first write reaches the caller.\<close>

definition pw_init :: "catalog \<Rightarrow> world \<Rightarrow> (exn + watcher) \<times> world" where
  "pw_init gs w =
     (case mkdir w of
        (Inl e, w1) \<Rightarrow> (Inl e, w1)
      | (Inr u, w1) \<Rightarrow>
          (case (if data_file w1 = None then write_text ''{}'' w1 else (Inr (), w1)) of
             (Inl e, w2) \<Rightarrow> (Inl e, w2)
           | (Inr u', w2) \<Rightarrow>
               (Inr \<lparr>games = gs, running = []\<rparr>,
                pw_log DataFilePath
                  (pw_log (MonitoredCount (length (remdups (dict_keys gs))))
                    (pw_log Initialized w2)))))"

text \<open>\<open>_load\<close> and \<open>_save\<close>: every exception of the body is caught and logged.\<close>

definition pw_load :: "pylib \<Rightarrow> world \<Rightarrow> (exn + pyval) \<times> world" where
  "pw_load lib w =
     (case read_text w of
        (Inl e, w1) \<Rightarrow> (Inr (PDict []), pw_log (LoadWarning e) w1)
      | (Inr txt, w1) \<Rightarrow>
          (case json_loads lib txt of
             Inl e \<Rightarrow> (Inr (PDict []), pw_log (LoadWarning e) w1)
           | Inr data \<Rightarrow> (Inr data, w1)))"

definition pw_save :: "pylib \<Rightarrow> pyval \<Rightarrow> world \<Rightarrow> (exn + unit) \<times> world" where
  "pw_save lib data w =
     (case json_dumps lib data of
        Inl e \<Rightarrow> (Inr (), pw_log (SaveError e) w)
      | Inr txt \<Rightarrow>
          (case write_text txt w of
             (Inl e, w1) \<Rightarrow> (Inr (), pw_log (SaveError e) w1)
           | (Inr u, w1) \<Rightarrow> (Inr (), w1)))"

text \<open>\<open>x + duration\<close> for an integer \<open>duration\<close>, as \<open>game_data["total"] += duration\<close> needs it.\<close>

fun py_add_int :: "pyval \<Rightarrow> int \<Rightarrow> exn + pyval" where
  "py_add_int (PInt a) d = Inr (PInt (a + d))"
| "py_add_int (PBool b) d = Inr (PInt ((if b then 1 else 0) + d))"
| "py_add_int (PFloat r) d = Inr (PFloat (r + of_int d))"
| "py_add_int _ d = Inl TypeError"

definition new_game_data :: pyval where
  "new_game_data = PDict [(''total'', PInt 0), (''last_open'', PNone), (''last_close'', PNone)]"

text \<open>
  Lines 178 to 191 of \<open>_record\<close>: the update of the loaded document. A document or a
  date entry that is not a dictionary has no \<open>setdefault\<close> (\<open>AttributeError\<close>); a game
  entry that is not a dictionary cannot be indexed by \<open>"total"\<close> (\<open>TypeError\<close>), one
  without that key raises \<open>KeyError\<close>, and a total that is not a number cannot be added to.
\<close>

definition merge_session ::
  "pyval \<Rightarrow> string \<Rightarrow> string \<Rightarrow> string \<Rightarrow> string \<Rightarrow> int \<Rightarrow> exn + pyval" where
  "merge_session data current_date game_name start_str end_str duration =
     (case data of
        PDict d \<Rightarrow>
          (case setdefault d current_date (PDict []) of
             (d1, PDict g) \<Rightarrow>
               (case setdefault g game_name new_game_data of
                  (g1, PDict r) \<Rightarrow>
                    (case map_of r ''total'' of
                       None \<Rightarrow> Inl (KeyError ''total'')
                     | Some t \<Rightarrow>
                         (case py_add_int t duration of
                            Inl e \<Rightarrow> Inl e
                          | Inr t' \<Rightarrow>
                              let r1 = dict_set r ''total'' t';
                                  r2 = dict_set r1 ''last_open'' (PStr start_str);
                                  r3 = dict_set r2 ''last_close'' (PStr end_str)
                              in Inr (PDict (dict_set d1 current_date
                                       (PDict (dict_set g1 game_name (PDict r3)))))))
                | (g1, _) \<Rightarrow> Inl TypeError)
           | (d1, _) \<Rightarrow> Inl AttributeError)
      | _ \<Rightarrow> Inl AttributeError)"

definition pw_record ::
  "pylib \<Rightarrow> catalog \<Rightarrow> string \<Rightarrow> real \<Rightarrow> int \<Rightarrow> world \<Rightarrow> (exn + unit) \<times> world" where
  "pw_record lib gs ex start_ts duration w =
     (case map_of gs ex of
        None \<Rightarrow> (Inl (KeyError ex), w)
      | Some g \<Rightarrow>
          let game_name = name g;
              start_str = strftime_datetime lib start_ts;
              (t_end, w1) = time_time w;
              end_str = strftime_datetime lib t_end;
              w2 = pw_log (Shutdown ex game_name duration) w1;
              (loaded, w3) = pw_load lib w2;
              (t_date, w4) = time_time w3;
              current_date = strftime_date lib t_date
          in (case loaded of
                Inl e \<Rightarrow> (Inl e, w4)
              | Inr data \<Rightarrow>
                  (case merge_session data current_date game_name start_str end_str duration of
                     Inl e \<Rightarrow> (Inl e, w4)
                   | Inr data' \<Rightarrow> pw_save lib data' w4)))"

text \<open>\<open>int(x)\<close> of a float: truncation towards zero.\<close>

definition py_int :: "real \<Rightarrow> int" where
  "py_int x = (if 0 \<le> x then \<lfloor>x\<rfloor> else \<lceil>x\<rceil>)"

text \<open>The body of the first loop of \<open>tick\<close>, for one process.\<close>

definition scan_proc ::
  "pylib \<Rightarrow> catalog \<Rightarrow> proc \<Rightarrow> string set \<times> (string \<times> real) list \<times> world
     \<Rightarrow> string set \<times> (string \<times> real) list \<times> world" where
  "scan_proc lib gs p s =
     (case s of (now_running, rn, w) \<Rightarrow>
       (case p of
          ProcGone \<Rightarrow> s
        | ProcBroken e \<Rightarrow> (now_running, rn, pw_log (TraverseWarning e) w)
        | Proc p_pid p_name p_exe \<Rightarrow>
            (case p_exe of
               None \<Rightarrow> s
             | Some path \<Rightarrow>
                 if path = [] then s
                 else
                   let exe_filename = path_name_lower lib path
                   in (case map_of gs exe_filename of
                         None \<Rightarrow> s
                       | Some g \<Rightarrow>
                           (case map_of rn exe_filename of
                              Some t0 \<Rightarrow> (insert exe_filename now_running, rn, w)
                            | None \<Rightarrow>
                                let (t, w1) = time_time w
                                in (insert exe_filename now_running,
                                    dict_set rn exe_filename t,
                                    pw_log (Startup exe_filename (name g) p_pid (exe_path g)) w1))))))"

fun scan_procs ::
  "pylib \<Rightarrow> catalog \<Rightarrow> proc list \<Rightarrow> string set \<times> (string \<times> real) list \<times> world
     \<Rightarrow> string set \<times> (string \<times> real) list \<times> world" where
  "scan_procs lib gs [] s = s"
| "scan_procs lib gs (p # ps) s = scan_procs lib gs ps (scan_proc lib gs p s)"

text \<open>
  The second loop of \<open>tick\<close>, over \<open>list(self.running.keys())\<close>. An exception of
  \<open>_record\<close> ends the tick: the filename is already popped, the filenames after it
  stay in \<open>running\<close>.
\<close>

fun stop_loop ::
  "pylib \<Rightarrow> catalog \<Rightarrow> string set \<Rightarrow> string list \<Rightarrow> (string \<times> real) list \<times> world
     \<Rightarrow> (exn + unit) \<times> (string \<times> real) list \<times> world" where
  "stop_loop lib gs now_running [] (rn, w) = (Inr (), rn, w)"
| "stop_loop lib gs now_running (ex # exes) (rn, w) =
     (if ex \<in> now_running then stop_loop lib gs now_running exes (rn, w)
      else
        case map_of rn ex of
          None \<Rightarrow> (Inl (KeyError ex), rn, w)
        | Some start_ts \<Rightarrow>
            let rn' = dict_pop rn ex;
                (t, w1) = time_time w;
                duration = py_int (t - start_ts)
            in (case pw_record lib gs ex start_ts duration w1 of
                  (Inl e, w2) \<Rightarrow> (Inl e, rn', w2)
                | (Inr u, w2) \<Rightarrow> stop_loop lib gs now_running exes (rn', w2)))"

definition pw_tick ::
  "pylib \<Rightarrow> watcher \<Rightarrow> proc list \<Rightarrow> world \<Rightarrow> (exn + unit) \<times> watcher \<times> world" where
  "pw_tick lib wt scan w =
     (case scan_procs lib (games wt) scan ({}, running wt, w) of
        (now_running, rn1, w1) \<Rightarrow>
          (case stop_loop lib (games wt) now_running (dict_keys rn1) (rn1, w1) of
             (r, rn2, w2) \<Rightarrow> (r, wt\<lparr>running := rn2\<rparr>, w2)))"

text \<open>
  The monitor loop of \<open>main.py\<close>, for a finite number of iterations: one scan of the
  process list per tick; an exception of a tick is reported and the loop goes on.
\<close>

fun monitor_loop :: "pylib \<Rightarrow> proc list list \<Rightarrow> watcher \<times> world \<Rightarrow> watcher \<times> world" where
  "monitor_loop lib [] s = s"
| "monitor_loop lib (scan # scans) (wt, w) =
     (case pw_tick lib wt scan w of
        (Inl e, wt', w') \<Rightarrow> monitor_loop lib scans (wt', pw_log (MonitorException e) w')
      | (Inr u, wt', w') \<Rightarrow> monitor_loop lib scans (wt', w'))"

section \<open>A concrete library and concrete worlds\<close>

text \<open>
  The closed examples below need an instance of the library parameters. JSON texts are
  taken from a finite table that pairs a text with the value it denotes; times are
  formatted in UTC by the proleptic Gregorian calendar; the name of a path is what
  follows its last separator, with the ASCII letters in lower case.
\<close>

definition table_loads :: "(string \<times> pyval) list \<Rightarrow> string \<Rightarrow> exn + pyval" where
  "table_loads tbl txt = (case map_of tbl txt of Some d \<Rightarrow> Inr d | None \<Rightarrow> Inl JSONDecodeError)"

definition table_dumps :: "(string \<times> pyval) list \<Rightarrow> pyval \<Rightarrow> exn + string" where
  "table_dumps tbl d =
     (case find (\<lambda>p. snd p = d) tbl of Some p \<Rightarrow> Inr (fst p) | None \<Rightarrow> Inl TypeError)"

definition pad2 :: "int \<Rightarrow> string" where
  "pad2 n = (if n < 10 then CHR ''0'' # str_int n else str_int n)"

definition civil_from_days :: "int \<Rightarrow> int \<times> int \<times> int" where
  "civil_from_days days =
     (let z = days + 719468;
          era = z div 146097;
          doe = z mod 146097;
          yoe = (doe - doe div 1460 + doe div 36524 - doe div 146096) div 365;
          doy = doe - (365 * yoe + yoe div 4 - yoe div 100);
          mp = (5 * doy + 2) div 153;
          d = doy - (153 * mp + 2) div 5 + 1;
          m = (if mp < 10 then mp + 3 else mp - 9);
          y = yoe + era * 400 + (if m \<le> 2 then 1 else 0)
      in (y, m, d))"

definition utc_date :: "real \<Rightarrow> string" where
  "utc_date t =
     (case civil_from_days (\<lfloor>t\<rfloor> div 86400) of
        (y, m, d) \<Rightarrow> str_int y @ ''-'' @ pad2 m @ ''-'' @ pad2 d)"

definition utc_datetime :: "real \<Rightarrow> string" where
  "utc_datetime t =
     (let sod = \<lfloor>t\<rfloor> mod 86400
      in utc_date t @ '' '' @ pad2 (sod div 3600) @ '':'' @ pad2 (sod mod 3600 div 60)
         @ '':'' @ pad2 (sod mod 60))"

definition ascii_lower :: "char \<Rightarrow> char" where
  "ascii_lower c =
     (case map_of (zip ''ABCDEFGHIJKLMNOPQRSTUVWXYZ'' ''abcdefghijklmnopqrstuvwxyz'') c of
        Some l \<Rightarrow> l
      | None \<Rightarrow> c)"

definition last_component_lower :: "string \<Rightarrow> string" where
  "last_component_lower p =
     map ascii_lower (rev (takeWhile (\<lambda>c. c \<noteq> CHR ''/'' \<and> c \<noteq> CHR 0x5C) (rev p)))"

definition table_lib :: "(string \<times> pyval) list \<Rightarrow> pylib" where
  "table_lib tbl =
     \<lparr>json_loads = table_loads tbl, json_dumps = table_dumps tbl,
      strftime_datetime = utc_datetime, strftime_date = utc_date,
      path_name_lower = last_component_lower\<rparr>"

text \<open>A world without input or output faults, with the given disk and clock.\<close>

definition quiet_world :: "datadir \<Rightarrow> (nat \<Rightarrow> real) \<Rightarrow> world" where
  "quiet_world d c =
     \<lparr>disk = d, mkdir_err = None, read_errs = (\<lambda>k. None), write_outs = (\<lambda>k. WriteOk),
      io_count = 0, clock = c, clock_reads = 0, log = []\<rparr>"

text \<open>
  The catalog of the specification's scenario, and the documents of two sessions of
  \<open>Game\<close> recorded on 2024-01-02: one of 20 seconds that began before midnight, then
  one of 60 seconds.
\<close>

definition demo_games :: catalog where
  "demo_games = [(''game.exe'', \<lparr>name = ''Game'', appid = ''1'', exe_path = ''/x/game.exe''\<rparr>)]"

definition doc_first :: pyval where
  "doc_first =
     PDict [(''2024-01-02'',
       PDict [(''Game'',
         PDict [(''total'', PInt 20), (''last_open'', PStr ''2024-01-01 23:59:50''),
                (''last_close'', PStr ''2024-01-02 00:00:10'')])])]"

definition doc_second :: pyval where
  "doc_second =
     PDict [(''2024-01-02'',
       PDict [(''Game'',
         PDict [(''total'', PInt 80), (''last_open'', PStr ''2024-01-02 00:01:40''),
                (''last_close'', PStr ''2024-01-02 00:02:40'')])])]"

definition text_first :: string where
  \<open>text_first =
     ''{"2024-01-02": {"Game": {"total": 20, "last_open": "2024-01-01 23:59:50", "last_close": "2024-01-02 00:00:10"}}}''\<close>

definition text_second :: string where
  \<open>text_second =
     ''{"2024-01-02": {"Game": {"total": 80, "last_open": "2024-01-02 00:01:40", "last_close": "2024-01-02 00:02:40"}}}''\<close>

definition demo_table :: "(string \<times> pyval) list" where
  "demo_table = [(''{}'', PDict []), (text_first, doc_first), (text_second, doc_second)]"

definition demo_lib :: pylib where
  "demo_lib = table_lib demo_table"

section \<open>Notions the properties speak of\<close>




text \<open>
  Reading the store document: \<open>v.get(k)\<close> on a dictionary value, the record of a
  (date, game) pair, one field of it, and the dates of the document in order.
\<close>

definition dict_get :: "pyval \<Rightarrow> string \<Rightarrow> pyval option" where
  "dict_get v k = (case v of PDict d \<Rightarrow> map_of d k | _ \<Rightarrow> None)"

definition is_dict :: "pyval \<Rightarrow> bool" where
  "is_dict v = (case v of PDict d \<Rightarrow> True | _ \<Rightarrow> False)"

definition lookup_record :: "pyval \<Rightarrow> string \<Rightarrow> string \<Rightarrow> pyval option" where
  "lookup_record doc d g = (case dict_get doc d of Some day \<Rightarrow> dict_get day g | None \<Rightarrow> None)"

definition record_field :: "pyval \<Rightarrow> string \<Rightarrow> string \<Rightarrow> string \<Rightarrow> pyval option" where
  "record_field doc d g k = (case lookup_record doc d g of Some r \<Rightarrow> dict_get r k | None \<Rightarrow> None)"

definition date_keys :: "pyval \<Rightarrow> string list" where
  "date_keys doc = (case doc of PDict d \<Rightarrow> dict_keys d | _ \<Rightarrow> [])"

text \<open>The total recorded for a (date, game) pair; 0 when there is no record.\<close>

definition total_of :: "pyval \<Rightarrow> string \<Rightarrow> string \<Rightarrow> int" where
  "total_of doc d g = (case record_field doc d g ''total'' of Some (PInt n) \<Rightarrow> n | _ \<Rightarrow> 0)"

text \<open>
  A well-formed record, as the data model has it: an integer total that is not negative,
  and two timestamps that are strings or null. The record of a pair is absent or
  well-formed in a document that is a dictionary whose entry for the date, if any, is a
  dictionary whose entry for the game, if any, is a well-formed record.
\<close>

definition well_formed_record :: "pyval \<Rightarrow> bool" where
  "well_formed_record r =
     ((case dict_get r ''total'' of Some (PInt n) \<Rightarrow> 0 \<le> n | _ \<Rightarrow> False)
      \<and> (case dict_get r ''last_open'' of Some (PStr s) \<Rightarrow> True | Some PNone \<Rightarrow> True | _ \<Rightarrow> False)
      \<and> (case dict_get r ''last_close'' of Some (PStr s) \<Rightarrow> True | Some PNone \<Rightarrow> True | _ \<Rightarrow> False))"

definition absent_or_well_formed :: "pyval \<Rightarrow> string \<Rightarrow> string \<Rightarrow> bool" where
  "absent_or_well_formed doc d g =
     (case doc of
        PDict D \<Rightarrow>
          (case map_of D d of
             None \<Rightarrow> True
           | Some (PDict G) \<Rightarrow> (case map_of G g of None \<Rightarrow> True | Some r \<Rightarrow> well_formed_record r)
           | Some _ \<Rightarrow> False)
      | _ \<Rightarrow> False)"

text \<open>
  Inside \<open>_record\<close>, called in world \<open>w\<close>: the first clock reading gives \<open>end_str\<close>,
  the second, taken after the load, gives \<open>current_date\<close>; \<open>world_at_save\<close> is the
  world in which \<open>_save\<close> is called.
\<close>

definition close_str :: "pylib \<Rightarrow> world \<Rightarrow> string" where
  "close_str lib w = strftime_datetime lib (clock w (clock_reads w))"

definition merge_date :: "pylib \<Rightarrow> world \<Rightarrow> string" where
  "merge_date lib w = strftime_date lib (clock w (Suc (clock_reads w)))"

definition world_at_save :: "pylib \<Rightarrow> string \<Rightarrow> string \<Rightarrow> int \<Rightarrow> world \<Rightarrow> world" where
  "world_at_save lib ex nm dur w =
     snd (time_time (snd (pw_load lib (pw_log (Shutdown ex nm dur) (snd (time_time w))))))"

text \<open>
  No fault of input or output: the data directory exists, every read of an existing file
  and every write succeeds. The library reads a document back: it serializes it, and
  parses the text to the same document.
\<close>

definition io_quiet :: "world \<Rightarrow> bool" where
  "io_quiet w = (disk w \<noteq> NoDir \<and> (\<forall>k. read_errs w k = None) \<and> (\<forall>k. write_outs w k = WriteOk))"

definition reads_back :: "pylib \<Rightarrow> pyval \<Rightarrow> bool" where
  "reads_back lib d = (case json_dumps lib d of Inl e \<Rightarrow> False | Inr txt \<Rightarrow> json_loads lib txt = Inr d)"

text \<open>
  Two worlds for the examples: the data file holds \<open>{}\<close>; in the first the clock reads
  2024-01-02 00:00:10 UTC, in the second it reads that time twice and 00:02:40 afterwards.
\<close>

definition midnight_world :: world where
  "midnight_world = quiet_world (Dir (Some ''{}'')) (\<lambda>k. 1704153610)"

definition two_session_world :: world where
  "two_session_world =
     quiet_world (Dir (Some ''{}'')) (\<lambda>k. if k < 2 then 1704153610 else 1704153760)"

text \<open>
  The start and stop events of one filename in a list of log events, their numbers, and
  the events a step appends to the log.
\<close>

fun is_startup :: "string \<Rightarrow> event \<Rightarrow> bool" where
  "is_startup x (Startup e nm p path) = (e = x)"
| "is_startup x _ = False"

fun is_shutdown :: "string \<Rightarrow> event \<Rightarrow> bool" where
  "is_shutdown x (Shutdown e nm d) = (e = x)"
| "is_shutdown x _ = False"

definition starts :: "string \<Rightarrow> event list \<Rightarrow> nat" where
  "starts x evs = length (filter (is_startup x) evs)"

definition stops :: "string \<Rightarrow> event list \<Rightarrow> nat" where
  "stops x evs = length (filter (is_shutdown x) evs)"

definition new_events :: "world \<Rightarrow> world \<Rightarrow> event list" where
  "new_events w w' = drop (length (log w)) (log w')"

text \<open>
  A scan observes a filename when one of its processes has an executable path whose
  lowercase name is that filename.
\<close>

fun shows_exe :: "pylib \<Rightarrow> string \<Rightarrow> proc \<Rightarrow> bool" where
  "shows_exe lib x (Proc p_pid p_name (Some path)) = (path \<noteq> [] \<and> path_name_lower lib path = x)"
| "shows_exe lib x _ = False"

definition observes :: "pylib \<Rightarrow> string \<Rightarrow> proc list \<Rightarrow> bool" where
  "observes lib x scan = list_ex (shows_exe lib x) scan"

text \<open>
  Auxiliary relations for the proofs about \<open>tick\<close>: a step appends events to the log
  and leaves the sequence of clock readings alone; what the first loop, the second loop
  and a whole tick do to one filename \<open>x\<close>.
\<close>

definition step_rel :: "world \<Rightarrow> world \<Rightarrow> event list \<Rightarrow> bool" where
  "step_rel w w' evs \<longleftrightarrow>
     log w' = log w @ evs \<and> clock w' = clock w \<and> clock_reads w \<le> clock_reads w'"

definition scan_ok ::
  "pylib \<Rightarrow> catalog \<Rightarrow> string \<Rightarrow> proc list \<Rightarrow> string set \<times> (string \<times> real) list \<times> world
     \<Rightarrow> string set \<times> (string \<times> real) list \<times> world \<Rightarrow> bool" where
  "scan_ok lib gs x ps s s' =
     (case s of (nr, rn, w) \<Rightarrow> case s' of (nr', rn', w') \<Rightarrow>
        (\<exists>evs. step_rel w w' evs \<and> stops x evs = 0
           \<and> (x \<in> nr' \<longleftrightarrow> x \<in> nr \<or> (observes lib x ps \<and> map_of gs x \<noteq> None))
           \<and> (\<forall>t. map_of rn x = Some t \<longrightarrow> map_of rn' x = Some t \<and> starts x evs = 0)
           \<and> (map_of rn x = None \<and> observes lib x ps \<and> map_of gs x \<noteq> None \<longrightarrow>
                (\<exists>k. clock_reads w \<le> k \<and> k < clock_reads w' \<and> map_of rn' x = Some (clock w k))
                \<and> starts x evs = 1)
           \<and> (map_of rn x = None \<and> \<not> (observes lib x ps \<and> map_of gs x \<noteq> None) \<longrightarrow>
                map_of rn' x = None \<and> starts x evs = 0)))"

definition stop_ok ::
  "catalog \<Rightarrow> string set \<Rightarrow> string \<Rightarrow> (string \<times> real) list \<Rightarrow> world
     \<Rightarrow> (string \<times> real) list \<Rightarrow> world \<Rightarrow> bool" where
  "stop_ok gs nr x rn w rn' w' =
     (\<exists>evs. step_rel w w' evs \<and> starts x evs = 0
        \<and> ((map_of rn' x = map_of rn x \<and> filter (is_shutdown x) evs = [])
           \<or> (x \<notin> nr \<and> map_of rn' x = None
               \<and> (\<exists>t k. map_of rn x = Some t \<and> clock_reads w \<le> k \<and> k < clock_reads w'
                     \<and> filter (is_shutdown x) evs =
                         (case map_of gs x of
                            Some g \<Rightarrow> [Shutdown x (name g) (py_int (clock w k - t))]
                          | None \<Rightarrow> [])))))"

definition tick_ok ::
  "pylib \<Rightarrow> string \<Rightarrow> proc list \<Rightarrow> watcher \<Rightarrow> world \<Rightarrow> watcher \<Rightarrow> world \<Rightarrow> event list \<Rightarrow> bool" where
  "tick_ok lib x scan wt w wt' w' evs \<longleftrightarrow>
     step_rel w w' evs \<and> games wt' = games wt \<and>
     (map_of (running wt) x = None \<and> observes lib x scan \<and> map_of (games wt) x \<noteq> None \<longrightarrow>
        starts x evs = 1 \<and> filter (is_shutdown x) evs = []
        \<and> (\<exists>k. clock_reads w \<le> k \<and> k < clock_reads w'
              \<and> map_of (running wt') x = Some (clock w k))) \<and>
     (map_of (running wt) x = None \<and> \<not> (observes lib x scan \<and> map_of (games wt) x \<noteq> None) \<longrightarrow>
        starts x evs = 0 \<and> filter (is_shutdown x) evs = [] \<and> map_of (running wt') x = None) \<and>
     (\<forall>t. map_of (running wt) x = Some t \<and> observes lib x scan \<and> map_of (games wt) x \<noteq> None \<longrightarrow>
        starts x evs = 0 \<and> filter (is_shutdown x) evs = [] \<and> map_of (running wt') x = Some t) \<and>
     (\<forall>t. map_of (running wt) x = Some t
          \<and> \<not> (observes lib x scan \<and> map_of (games wt) x \<noteq> None) \<longrightarrow>
        starts x evs = 0
        \<and> ((map_of (running wt') x = Some t \<and> filter (is_shutdown x) evs = [])
           \<or> (map_of (running wt') x = None
               \<and> (\<exists>k. clock_reads w \<le> k \<and> k < clock_reads w'
                     \<and> filter (is_shutdown x) evs =
                         (case map_of (games wt) x of
                            Some g \<Rightarrow> [Shutdown x (name g) (py_int (clock w k - t))]
                          | None \<Rightarrow> [])))))"

text \<open>Every filename of the running-set is a key of the catalog.\<close>

definition catalog_closed :: "watcher \<Rightarrow> bool" where
  "catalog_closed wt \<longleftrightarrow> (\<forall>x. map_of (running wt) x \<noteq> None \<longrightarrow> map_of (games wt) x \<noteq> None)"

text \<open>
  The session invariant of one filename: the log has one start event more than stop
  events exactly when the filename is in the running-set, and then it is in the catalog.
\<close>

definition sess_inv :: "string \<Rightarrow> watcher \<Rightarrow> world \<Rightarrow> bool" where
  "sess_inv x wt w \<longleftrightarrow>
     starts x (log w) = stops x (log w) + (if map_of (running wt) x = None then 0 else 1)
     \<and> (map_of (running wt) x \<noteq> None \<longrightarrow> map_of (games wt) x \<noteq> None)"

text \<open>
  The specification's scenario: the process \<open>Game.exe\<close> is seen by the first scan. The
  clock reads 2024-01-01 23:59:50 at the start, 2024-01-02 00:00:10.5 at the stop and
  00:00:10 afterwards. \<open>started\<close> is the state after \<open>__init__\<close> and one tick that sees
  the process; \<open>stopping_world\<close> is the world in which the next tick, which does not see
  it, calls \<open>_record\<close>.
\<close>

definition demo_proc :: proc where
  "demo_proc = Proc (Some 4242) ''Game.exe'' (Some ''/x/Game.exe'')"

definition run_clock :: "nat \<Rightarrow> real" where
  "run_clock k = (if k = 0 then 1704153590 else if k = 1 then 17041536105 / 10 else 1704153610)"

definition run_world :: world where
  "run_world = quiet_world (Dir (Some ''{}'')) run_clock"

definition fresh_watcher :: watcher where
  "fresh_watcher = \<lparr>games = demo_games, running = []\<rparr>"

definition started :: "watcher \<times> world" where
  "started = monitor_loop demo_lib [[demo_proc]] (fresh_watcher, snd (pw_init demo_games run_world))"

definition stopping_world :: world where
  "stopping_world =
     run_world\<lparr>clock_reads := 2,
       log := [Initialized, MonitoredCount 1, DataFilePath,
               Startup ''game.exe'' ''Game'' (Some 4242) ''/x/game.exe'']\<rparr>"

section \<open>Properties of the duration formatter\<close>

lemma mod_3600_mod_60: "(n::int) mod 3600 mod 60 = n mod 60"
  by (rule mod_mod_cancel) simp

lemma format_playtime_refines_spec: "format_playtime v = format_spec v"
proof (cases "as_int v")
  case None
  then show ?thesis
    by (simp add: format_playtime_def format_spec_def valid_seconds_def)
next
  case (Some n)
  show ?thesis
  proof (cases "n < 0")
    case True
    with Some show ?thesis
      by (simp add: format_playtime_def format_spec_def valid_seconds_def)
  next
    case False
    with Some show ?thesis
      by (simp add: format_playtime_def format_spec_def valid_seconds_def Let_def
          mod_3600_mod_60)
  qed
qed

lemma str_int_small: "0 \<le> i \<Longrightarrow> i < 10 \<Longrightarrow> str_int i = [digit_char (nat i)]"
  by (simp add: str_int_def str_nat.simps)

lemma format_examples:
  "format_playtime (PInt 0) = ''0s''"
  "format_playtime (PInt 45) = ''45s''"
  "format_playtime (PInt 120) = ''2m''"
  "format_playtime (PInt 3661) = ''1h1m1s''"
  "format_playtime (PInt 7200) = ''2h0m''"
  "format_playtime (PInt (- 5)) = ''0s''"
  by (simp_all add: format_playtime_def Let_def str_int_def str_nat.simps digit_char_def)

text \<open>
  C8. The duration formatter is a function of its argument alone. It agrees, on every
  Python value, with the specification's rules: anything that is not a non-negative
  integer gives \<open>0s\<close>; otherwise hours, minutes and seconds are printed in the three
  shapes of the rules. The six listed examples evaluate as stated.
\<close>

theorem C8_format_playtime:
  "format_playtime v = format_spec v
   \<and> format_playtime (PInt 0) = ''0s''
   \<and> format_playtime (PInt 45) = ''45s''
   \<and> format_playtime (PInt 120) = ''2m''
   \<and> format_playtime (PInt 3661) = ''1h1m1s''
   \<and> format_playtime (PInt 7200) = ''2h0m''
   \<and> format_playtime (PInt (- 5)) = ''0s''
   \<and> format_playtime (PFloat 45) = ''0s''
   \<and> format_playtime (PStr ''45'') = ''0s''
   \<and> format_playtime PNone = ''0s''"
  using format_playtime_refines_spec [of v] format_examples
  by (simp add: format_playtime_def)


section \<open>The store: load, save, initialization\<close>

lemma demo_texts_differ: "text_first \<noteq> text_second" "text_first \<noteq> ''{}''" "text_second \<noteq> ''{}''"
  by (simp_all add: text_first_def text_second_def)

lemma demo_docs_differ: "doc_first \<noteq> doc_second" "doc_first \<noteq> PDict []" "doc_second \<noteq> PDict []"
  by (simp_all add: doc_first_def doc_second_def)

lemma demo_dumps:
  "json_dumps demo_lib (PDict []) = Inr ''{}''"
  "json_dumps demo_lib doc_first = Inr text_first"
  "json_dumps demo_lib doc_second = Inr text_second"
  by (simp_all add: demo_lib_def table_lib_def table_dumps_def demo_table_def demo_docs_differ
      demo_docs_differ [symmetric])

lemma demo_loads:
  "json_loads demo_lib ''{}'' = Inr (PDict [])"
  "json_loads demo_lib text_first = Inr doc_first"
  "json_loads demo_lib text_second = Inr doc_second"
  "json_loads demo_lib [] = Inl JSONDecodeError"
  by (simp_all add: demo_lib_def table_lib_def table_loads_def demo_table_def demo_texts_differ
      demo_texts_differ [symmetric])
    (simp_all add: text_first_def text_second_def)






text \<open>
  C7. When the data file exists, \<open>__init__\<close> leaves its content as it is, and so does
  a second \<open>__init__\<close>. When it does not exist and the directory can be made and the
  file written, the directory exists afterwards and the file holds \<open>{}\<close>. After an
  initialization that returned, one more changes nothing on disk.
\<close>

theorem C7_init_idempotent:
  "(data_file w = Some c \<longrightarrow>
      data_file (snd (pw_init gs w)) = Some c
      \<and> data_file (snd (pw_init gs' (snd (pw_init gs w)))) = Some c)
   \<and> (data_file w = None \<and> (disk w = NoDir \<longrightarrow> mkdir_err w = None)
        \<and> write_outs w (io_count w) = WriteOk \<longrightarrow>
      disk (snd (pw_init gs w)) = Dir (Some ''{}'')
      \<and> disk (snd (pw_init gs' (snd (pw_init gs w)))) = Dir (Some ''{}''))
   \<and> (isl (fst (pw_init gs w)) \<or>
        disk (snd (pw_init gs' (snd (pw_init gs w)))) = disk (snd (pw_init gs w)))"
  by (auto simp: pw_init_def mkdir_def write_text_def data_file_def pw_log_def Let_def
      split: sum.splits datadir.splits write_outcome.splits prod.splits option.splits if_splits)

theorem C7_init_idempotent_witness:
  "data_file (quiet_world (Dir (Some text_first)) (\<lambda>k. 0)) = Some text_first
   \<and> data_file (snd (pw_init demo_games (quiet_world (Dir (Some text_first)) (\<lambda>k. 0))))
       = Some text_first
   \<and> data_file (snd (pw_init demo_games
        (snd (pw_init demo_games (quiet_world (Dir (Some text_first)) (\<lambda>k. 0))))))
       = Some text_first
   \<and> data_file (quiet_world NoDir (\<lambda>k. 0)) = None
   \<and> mkdir_err (quiet_world NoDir (\<lambda>k. 0)) = None
   \<and> write_outs (quiet_world NoDir (\<lambda>k. 0)) (io_count (quiet_world NoDir (\<lambda>k. 0))) = WriteOk
   \<and> disk (snd (pw_init demo_games (quiet_world NoDir (\<lambda>k. 0)))) = Dir (Some ''{}'')
   \<and> disk (snd (pw_init demo_games (snd (pw_init demo_games (quiet_world NoDir (\<lambda>k. 0))))))
       = Dir (Some ''{}'')
   \<and> fst (pw_init demo_games (quiet_world NoDir (\<lambda>k. 0)))
       = Inr \<lparr>games = demo_games, running = []\<rparr>"
  using C7_init_idempotent [of "quiet_world (Dir (Some text_first)) (\<lambda>k. 0)" text_first
      demo_games demo_games]
    C7_init_idempotent [of "quiet_world NoDir (\<lambda>k. 0)" c demo_games demo_games]
  by (simp add: quiet_world_def pw_init_def mkdir_def write_text_def data_file_def pw_log_def
      Let_def)

section \<open>Recording a session: the merge into the store document\<close>

lemma map_of_dict_set: "map_of (dict_set d k v) k' = (if k' = k then Some v else map_of d k')"
  by (induction d) auto

lemma dict_keys_dict_set:
  "dict_keys (dict_set d k v) = (if k \<in> set (dict_keys d) then dict_keys d else dict_keys d @ [k])"
  by (induction d) (auto simp: dict_keys_def rev_image_eqI)

lemma map_of_None_keys: "map_of d k = None \<longleftrightarrow> k \<notin> set (dict_keys d)"
  by (simp add: dict_keys_def map_of_eq_None_iff)

lemma setdefault_cases:
  "setdefault d k v = (d1, x) \<Longrightarrow>
     (map_of d k = Some x \<and> d1 = d) \<or> (map_of d k = None \<and> d1 = d @ [(k, v)] \<and> x = v)"
  by (auto simp: setdefault_def split: option.splits)

lemma map_of_snoc: "map_of (d @ [(k, v)]) k' = (case map_of d k' of Some x \<Rightarrow> Some x | None \<Rightarrow> if k' = k then Some v else None)"
  by (induction d) auto

lemma merge_session_Inr:
  assumes "merge_session data cur nm s e dur = Inr data'"
  shows "\<exists>D G r t t'. data = PDict D
     \<and> (map_of D cur = None \<and> G = [] \<or> map_of D cur = Some (PDict G))
     \<and> (map_of G nm = None \<and> PDict r = new_game_data \<or> map_of G nm = Some (PDict r))
     \<and> map_of r ''total'' = Some t \<and> py_add_int t dur = Inr t'
     \<and> data' = PDict (dict_set D cur (PDict (dict_set G nm
          (PDict (dict_set (dict_set (dict_set r ''total'' t') ''last_open'' (PStr s))
             ''last_close'' (PStr e))))))"
proof -
  from assms obtain D where D: "data = PDict D"
    by (cases data) (auto simp: merge_session_def)
  obtain D1 day where sd1: "setdefault D cur (PDict []) = (D1, day)"
    by (cases "setdefault D cur (PDict [])")
  from assms D sd1 obtain G where G: "day = PDict G"
    by (cases day) (auto simp: merge_session_def)
  obtain G1 rec where sd2: "setdefault G nm new_game_data = (G1, rec)"
    by (cases "setdefault G nm new_game_data")
  from assms D sd1 G sd2 obtain r where r: "rec = PDict r"
    by (cases rec) (auto simp: merge_session_def)
  from assms D sd1 G sd2 r obtain t where t: "map_of r ''total'' = Some t"
    by (cases "map_of r ''total''") (auto simp: merge_session_def)
  from assms D sd1 G sd2 r t obtain t' where t': "py_add_int t dur = Inr t'"
    by (cases "py_add_int t dur") (auto simp: merge_session_def)
  from assms D sd1 G sd2 r t t' have res:
    "data' = PDict (dict_set D1 cur (PDict (dict_set G1 nm
          (PDict (dict_set (dict_set (dict_set r ''total'' t') ''last_open'' (PStr s))
             ''last_close'' (PStr e))))))"
    by (simp add: merge_session_def Let_def)
  have dsnoc: "dict_set (d @ [(k, v)]) k v' = dict_set d k v'" if "map_of d k = None"
    for d :: "(string \<times> pyval) list" and k v v'
    using that by (induction d) (auto split: if_splits)
  from setdefault_cases [OF sd1]
  have c1: "(map_of D cur = None \<and> G = [] \<or> map_of D cur = Some (PDict G))
     \<and> dict_set D1 cur = dict_set D cur"
    using G dsnoc by auto
  from setdefault_cases [OF sd2]
  have c2: "(map_of G nm = None \<and> PDict r = new_game_data \<or> map_of G nm = Some (PDict r))
     \<and> dict_set G1 nm = dict_set G nm"
    using r dsnoc by auto
  from D c1 c2 t t' res show ?thesis by auto
qed


lemma pw_load_fst_indep:
  "fst (pw_load lib (pw_log ev (snd (time_time w)))) = fst (pw_load lib w)"
  by (simp add: pw_load_def read_text_def pw_log_def time_time_def data_file_def Let_def
      split: option.splits sum.splits datadir.splits)

lemma pw_load_clock:
  "clock (snd (pw_load lib w)) = clock w" "clock_reads (snd (pw_load lib w)) = clock_reads w"
  by (simp_all add: pw_load_def read_text_def pw_log_def Let_def
      split: option.splits sum.splits)

lemma pw_load_Inr: "\<exists>d. fst (pw_load lib w) = Inr d"
  by (simp add: pw_load_def read_text_def pw_log_def Let_def split: option.splits sum.splits)

lemma pw_record_unfold:
  assumes "map_of gs ex = Some g" and "fst (pw_load lib w) = Inr data"
  shows "pw_record lib gs ex ts dur w =
     (case merge_session data (merge_date lib w) (name g) (strftime_datetime lib ts)
              (close_str lib w) dur of
        Inl e \<Rightarrow> (Inl e, world_at_save lib ex (name g) dur w)
      | Inr data' \<Rightarrow> pw_save lib data' (world_at_save lib ex (name g) dur w))"
proof -
  let ?w2 = "pw_log (Shutdown ex (name g) dur) (snd (time_time w))"
  obtain w3 where l: "pw_load lib ?w2 = (Inr data, w3)"
    using assms(2) pw_load_fst_indep [of lib "Shutdown ex (name g) dur" w]
    by (metis prod.collapse)
  have c: "clock w3 = clock w" "clock_reads w3 = Suc (clock_reads w)"
    using pw_load_clock [of lib ?w2] l by (simp_all add: pw_log_def time_time_def)
  have ws: "world_at_save lib ex (name g) dur w = w3\<lparr>clock_reads := Suc (clock_reads w3)\<rparr>"
    unfolding world_at_save_def l by (simp add: time_time_def)
  have t1: "time_time w = (clock w (clock_reads w), snd (time_time w))"
    by (simp add: time_time_def)
  have t2: "time_time w3 = (clock w (Suc (clock_reads w)), w3\<lparr>clock_reads := Suc (clock_reads w3)\<rparr>)"
    by (simp add: time_time_def c)
  show ?thesis
    unfolding pw_record_def Let_def
    by (subst t1) (simp add: assms(1) l t2 ws merge_date_def close_str_def split: sum.splits)
qed


lemma merge_frame_date:
  assumes "merge_session data cur nm s e dur = Inr data'" and "d' \<noteq> cur"
  shows "dict_get data' d' = dict_get data d'"
  using merge_session_Inr [OF assms(1)] assms(2)
  by (auto simp: dict_get_def map_of_dict_set)


lemma merge_date_keys:
  assumes "merge_session data cur nm s e dur = Inr data'"
  shows "date_keys data' =
     (if cur \<in> set (date_keys data) then date_keys data else date_keys data @ [cur])"
  using merge_session_Inr [OF assms(1)]
  by (auto simp: date_keys_def dict_keys_dict_set)

lemma merge_fields:
  assumes "merge_session data cur nm s e dur = Inr data'"
  shows "record_field data' cur nm ''last_open'' = Some (PStr s)
     \<and> record_field data' cur nm ''last_close'' = Some (PStr e)
     \<and> is_dict data \<and> lookup_record data' cur nm \<noteq> None"
  using merge_session_Inr [OF assms(1)]
  by (auto simp: record_field_def lookup_record_def dict_get_def map_of_dict_set is_dict_def)


lemma merge_total:
  assumes "absent_or_well_formed data cur nm"
  shows "\<exists>data'. merge_session data cur nm s e dur = Inr data'
     \<and> record_field data' cur nm ''total'' = Some (PInt (total_of data cur nm + dur))"
proof -
  from assms obtain D where D: "data = PDict D"
    by (cases data) (auto simp: absent_or_well_formed_def)
  show ?thesis
  proof (cases "map_of D cur")
    case None
    with D show ?thesis
      by (simp add: merge_session_def setdefault_def new_game_data_def Let_def
          record_field_def lookup_record_def dict_get_def map_of_dict_set total_of_def
          map_of_snoc)
  next
    case (Some day)
    with assms D obtain G where G: "day = PDict G"
      by (cases day) (auto simp: absent_or_well_formed_def)
    show ?thesis
    proof (cases "map_of G nm")
      case None
      with D Some G show ?thesis
        by (simp add: merge_session_def setdefault_def new_game_data_def Let_def
            record_field_def lookup_record_def dict_get_def map_of_dict_set total_of_def
            map_of_snoc)
    next
      case (Some rec)
      with assms D \<open>map_of D cur = Some day\<close> G have wf: "well_formed_record rec"
        by (simp add: absent_or_well_formed_def)
      then obtain r where r: "rec = PDict r"
        by (cases rec) (auto simp: well_formed_record_def dict_get_def)
      from wf r obtain n where n: "map_of r ''total'' = Some (PInt n)"
        by (auto simp: well_formed_record_def dict_get_def split: option.splits pyval.splits)
      from D \<open>map_of D cur = Some day\<close> G Some r n show ?thesis
        by (simp add: merge_session_def setdefault_def Let_def
            record_field_def lookup_record_def dict_get_def map_of_dict_set total_of_def)
    qed
  qed
qed


lemma civil_days: "civil_from_days 19723 = (2024, 1, 1)" "civil_from_days 19724 = (2024, 1, 2)"
  by code_simp+

lemma utc_values:
  "utc_datetime 1704153590 = ''2024-01-01 23:59:50''"
  "utc_datetime 1704153610 = ''2024-01-02 00:00:10''"
  "utc_datetime 1704153700 = ''2024-01-02 00:01:40''"
  "utc_datetime 1704153760 = ''2024-01-02 00:02:40''"
  "utc_date 1704153590 = ''2024-01-01''"
  "utc_date 1704153610 = ''2024-01-02''"
  "utc_date 1704153760 = ''2024-01-02''"
  by (simp_all add: utc_datetime_def utc_date_def civil_days pad2_def str_int_def
      str_nat.simps digit_char_def)

lemma demo_lib_fields:
  "strftime_datetime demo_lib = utc_datetime" "strftime_date demo_lib = utc_date"
  "path_name_lower demo_lib = last_component_lower"
  by (simp_all add: demo_lib_def table_lib_def)



lemma merge_total_present:
  assumes "record_field data cur nm ''total'' = Some (PInt n)"
  shows "\<exists>data'. merge_session data cur nm s e dur = Inr data'
     \<and> record_field data' cur nm ''total'' = Some (PInt (n + dur))"
proof -
  from assms obtain D where D: "data = PDict D"
    by (cases data) (auto simp: record_field_def lookup_record_def dict_get_def)
  from assms D obtain day where day: "map_of D cur = Some day"
    by (cases "map_of D cur") (auto simp: record_field_def lookup_record_def dict_get_def)
  from assms D day obtain G where G: "day = PDict G"
    by (cases day) (auto simp: record_field_def lookup_record_def dict_get_def)
  from assms D day G obtain rec where rec: "map_of G nm = Some rec"
    by (cases "map_of G nm") (auto simp: record_field_def lookup_record_def dict_get_def)
  from assms D day G rec obtain r where r: "rec = PDict r"
    by (cases rec) (auto simp: record_field_def lookup_record_def dict_get_def)
  from assms D day G rec r have n: "map_of r ''total'' = Some (PInt n)"
    by (simp add: record_field_def lookup_record_def dict_get_def)
  from D day G rec r n show ?thesis
    by (simp add: merge_session_def setdefault_def Let_def
        record_field_def lookup_record_def dict_get_def map_of_dict_set)
qed

lemma world_at_save_io:
  "disk (world_at_save lib ex nm dur w) = disk w"
  "read_errs (world_at_save lib ex nm dur w) = read_errs w"
  "write_outs (world_at_save lib ex nm dur w) = write_outs w"
  by (simp_all add: world_at_save_def time_time_def pw_load_def read_text_def pw_log_def Let_def
      split: option.splits sum.splits)

lemma pw_save_quiet:
  assumes "io_quiet w" and "json_dumps lib d = Inr txt"
  shows "fst (pw_save lib d w) = Inr ()"
    and "data_file (snd (pw_save lib d w)) = Some txt"
    and "io_quiet (snd (pw_save lib d w))"
    and "log (snd (pw_save lib d w)) = log w"
  using assms
  by (auto simp: pw_save_def write_text_def io_quiet_def data_file_def Let_def
      split: datadir.splits)

lemma pw_load_quiet:
  assumes "io_quiet w" and "data_file w = Some txt" and "json_loads lib txt = Inr d"
  shows "fst (pw_load lib w) = Inr d"
  using assms by (simp add: pw_load_def read_text_def io_quiet_def Let_def)

text \<open>
  C6. A call of \<open>_record\<close> that returns files the session under the date of the clock
  reading taken at the merge (the one after the load): the record of that date and the
  game carries the session's timestamps, and the duration is added there. No other date
  entry is made or changed, the date of the session's start timestamp included when
  it differs: a session that spans midnight is attributed entirely to the date of its
  completion.
\<close>

theorem C6_bucket_is_completion_date:
  assumes "map_of gs ex = Some g"
    and "fst (pw_load lib w) = Inr doc"
    and "fst (pw_record lib gs ex ts dur w) = Inr ()"
  shows "\<exists>doc'. pw_record lib gs ex ts dur w
                  = pw_save lib doc' (world_at_save lib ex (name g) dur w)
     \<and> record_field doc' (merge_date lib w) (name g) ''last_open''
         = Some (PStr (strftime_datetime lib ts))
     \<and> record_field doc' (merge_date lib w) (name g) ''last_close''
         = Some (PStr (close_str lib w))
     \<and> date_keys doc' = (if merge_date lib w \<in> set (date_keys doc) then date_keys doc
                          else date_keys doc @ [merge_date lib w])
     \<and> (strftime_date lib ts \<noteq> merge_date lib w \<longrightarrow>
          dict_get doc' (strftime_date lib ts) = dict_get doc (strftime_date lib ts))
     \<and> (absent_or_well_formed doc (merge_date lib w) (name g) \<longrightarrow>
          record_field doc' (merge_date lib w) (name g) ''total''
            = Some (PInt (total_of doc (merge_date lib w) (name g) + dur)))"
proof -
  let ?m = "merge_session doc (merge_date lib w) (name g) (strftime_datetime lib ts)
              (close_str lib w) dur"
  from assms(3) pw_record_unfold [OF assms(1,2), of ts dur]
  obtain doc' where m: "?m = Inr doc'"
    by (cases ?m) auto
  with pw_record_unfold [OF assms(1,2), of ts dur]
  have eq: "pw_record lib gs ex ts dur w = pw_save lib doc' (world_at_save lib ex (name g) dur w)"
    by simp
  have tot: "record_field doc' (merge_date lib w) (name g) ''total''
            = Some (PInt (total_of doc (merge_date lib w) (name g) + dur))"
    if "absent_or_well_formed doc (merge_date lib w) (name g)"
    using merge_total [OF that, of "strftime_datetime lib ts" "close_str lib w" dur] m
    by auto
  from eq merge_fields [OF m] merge_date_keys [OF m] merge_frame_date [OF m] tot
  show ?thesis
    by (intro exI [of _ doc']) simp
qed

text \<open>
  C3. Two sessions of durations \<open>a\<close> and \<open>b\<close> are recorded one after the other for
  the same game name on the same date, with no fault of input or output, from a loaded
  document in which the record of that date and game is absent or well-formed; the
  library reads back the document of the first merge. Then both calls return; the
  document saved by the first has the previous total plus \<open>a\<close> and the first
  session's formatted start and end; the one saved by the second has the previous total
  plus \<open>a + b\<close> and the second session's formatted start and end. For durations that
  are not negative the total never decreases.
\<close>

theorem C3_two_sessions:
  assumes io: "io_quiet w"
    and cat: "map_of gs ex1 = Some g1" "map_of gs ex2 = Some g2" "name g2 = name g1"
    and doc: "fst (pw_load lib w) = Inr doc" "absent_or_well_formed doc (merge_date lib w) (name g1)"
    and lib: "\<forall>d. merge_session doc (merge_date lib w) (name g1) (strftime_datetime lib ts1)
                  (close_str lib w) a = Inr d \<longrightarrow> reads_back lib d"
    and day: "merge_date lib (snd (pw_record lib gs ex1 ts1 a w)) = merge_date lib w"
  shows "\<exists>doc1 doc2.
       pw_record lib gs ex1 ts1 a w
         = pw_save lib doc1 (world_at_save lib ex1 (name g1) a w)
     \<and> fst (pw_record lib gs ex1 ts1 a w) = Inr ()
     \<and> fst (pw_load lib (snd (pw_record lib gs ex1 ts1 a w))) = Inr doc1
     \<and> record_field doc1 (merge_date lib w) (name g1) ''total''
         = Some (PInt (total_of doc (merge_date lib w) (name g1) + a))
     \<and> record_field doc1 (merge_date lib w) (name g1) ''last_open''
         = Some (PStr (strftime_datetime lib ts1))
     \<and> record_field doc1 (merge_date lib w) (name g1) ''last_close''
         = Some (PStr (close_str lib w))
     \<and> pw_record lib gs ex2 ts2 b (snd (pw_record lib gs ex1 ts1 a w))
         = pw_save lib doc2 (world_at_save lib ex2 (name g1) b (snd (pw_record lib gs ex1 ts1 a w)))
     \<and> fst (pw_record lib gs ex2 ts2 b (snd (pw_record lib gs ex1 ts1 a w))) = Inr ()
     \<and> record_field doc2 (merge_date lib w) (name g1) ''total''
         = Some (PInt (total_of doc (merge_date lib w) (name g1) + a + b))
     \<and> record_field doc2 (merge_date lib w) (name g1) ''last_open''
         = Some (PStr (strftime_datetime lib ts2))
     \<and> record_field doc2 (merge_date lib w) (name g1) ''last_close''
         = Some (PStr (close_str lib (snd (pw_record lib gs ex1 ts1 a w))))
     \<and> (0 \<le> a \<and> 0 \<le> b \<longrightarrow>
           total_of doc (merge_date lib w) (name g1) \<le> total_of doc1 (merge_date lib w) (name g1)
         \<and> total_of doc1 (merge_date lib w) (name g1) \<le> total_of doc2 (merge_date lib w) (name g1))"
proof -
  let ?cur = "merge_date lib w"
  let ?nm = "name g1"
  let ?w1 = "snd (pw_record lib gs ex1 ts1 a w)"
  let ?p = "total_of doc ?cur ?nm"
  from merge_total [OF doc(2), of "strftime_datetime lib ts1" "close_str lib w" a]
  obtain doc1 where m1: "merge_session doc ?cur ?nm (strftime_datetime lib ts1) (close_str lib w) a
      = Inr doc1"
    and t1: "record_field doc1 ?cur ?nm ''total'' = Some (PInt (?p + a))"
    by blast
  from pw_record_unfold [OF cat(1) doc(1), of ts1 a] m1
  have e1: "pw_record lib gs ex1 ts1 a w = pw_save lib doc1 (world_at_save lib ex1 ?nm a w)"
    by simp
  from lib m1 have "reads_back lib doc1" by blast
  then obtain tx where tx: "json_dumps lib doc1 = Inr tx" "json_loads lib tx = Inr doc1"
    by (auto simp: reads_back_def split: sum.splits)
  from io have qs: "io_quiet (world_at_save lib ex1 ?nm a w)"
    by (simp add: io_quiet_def world_at_save_io)
  from pw_save_quiet [OF qs tx(1)] e1
  have s1: "fst (pw_record lib gs ex1 ts1 a w) = Inr ()" "data_file ?w1 = Some tx" "io_quiet ?w1"
    by simp_all
  from pw_load_quiet [OF s1(3) s1(2) tx(2)]
  have l1: "fst (pw_load lib ?w1) = Inr doc1" .
  from merge_total_present [OF t1, of "strftime_datetime lib ts2" "close_str lib ?w1" b]
  obtain doc2 where m2: "merge_session doc1 ?cur ?nm (strftime_datetime lib ts2)
      (close_str lib ?w1) b = Inr doc2"
    and t2: "record_field doc2 ?cur ?nm ''total'' = Some (PInt (?p + a + b))"
    by blast
  from pw_record_unfold [OF cat(2) l1, of ts2 b] m2 day cat(3)
  have e2: "pw_record lib gs ex2 ts2 b ?w1 = pw_save lib doc2 (world_at_save lib ex2 ?nm b ?w1)"
    by simp
  have s2: "fst (pw_record lib gs ex2 ts2 b ?w1) = Inr ()"
    unfolding e2 by (simp add: pw_save_def split: sum.splits prod.splits)
  have mono: "?p \<le> total_of doc1 ?cur ?nm \<and> total_of doc1 ?cur ?nm \<le> total_of doc2 ?cur ?nm"
    if "0 \<le> a \<and> 0 \<le> b"
    using that t1 t2 by (simp add: total_of_def)
  from e1 s1(1) l1 t1 merge_fields [OF m1] e2 s2 t2 merge_fields [OF m2] mono
  show ?thesis
    by (intro exI [of _ doc1] exI [of _ doc2]) simp
qed


lemma pw_save_clock:
  "clock (snd (pw_save lib d w)) = clock w" "clock_reads (snd (pw_save lib d w)) = clock_reads w"
  by (simp_all add: pw_save_def write_text_def pw_log_def Let_def
      split: sum.splits datadir.splits write_outcome.splits)

lemma world_at_save_clock:
  "clock (world_at_save lib ex nm dur w) = clock w"
  "clock_reads (world_at_save lib ex nm dur w) = Suc (Suc (clock_reads w))"
  by (simp_all add: world_at_save_def time_time_def pw_load_clock pw_log_def)

lemma pw_record_clock:
  "clock (snd (pw_record lib gs ex ts dur w)) = clock w"
  "clock_reads w \<le> clock_reads (snd (pw_record lib gs ex ts dur w))"
  "map_of gs ex \<noteq> None \<Longrightarrow>
     clock_reads (snd (pw_record lib gs ex ts dur w)) = Suc (Suc (clock_reads w))"
proof -
  show "clock (snd (pw_record lib gs ex ts dur w)) = clock w"
  proof (cases "map_of gs ex")
    case None
    then show ?thesis by (simp add: pw_record_def)
  next
    case (Some g)
    obtain data where "fst (pw_load lib w) = Inr data"
      using pw_load_Inr by blast
    from pw_record_unfold [OF Some this] show ?thesis
      by (simp add: pw_save_clock world_at_save_clock split: sum.splits)
  qed
  have k: "clock_reads (snd (pw_record lib gs ex ts dur w)) = Suc (Suc (clock_reads w))"
    if "map_of gs ex = Some g" for g
  proof -
    obtain data where "fst (pw_load lib w) = Inr data"
      using pw_load_Inr by blast
    from pw_record_unfold [OF that this] show ?thesis
      by (simp add: pw_save_clock world_at_save_clock split: sum.splits)
  qed
  then show "map_of gs ex \<noteq> None \<Longrightarrow>
     clock_reads (snd (pw_record lib gs ex ts dur w)) = Suc (Suc (clock_reads w))"
    by auto
  show "clock_reads w \<le> clock_reads (snd (pw_record lib gs ex ts dur w))"
  proof (cases "map_of gs ex")
    case None
    then show ?thesis by (simp add: pw_record_def)
  next
    case (Some g)
    with k show ?thesis by simp
  qed
qed

lemma demo_game: "map_of demo_games ''game.exe''
    = Some \<lparr>name = ''Game'', appid = ''1'', exe_path = ''/x/game.exe''\<rparr>"
  by (simp add: demo_games_def)

lemma first_merge:
  "merge_session (PDict []) ''2024-01-02'' ''Game'' ''2024-01-01 23:59:50''
     ''2024-01-02 00:00:10'' 20 = Inr doc_first"
  by (simp add: merge_session_def setdefault_def new_game_data_def doc_first_def Let_def)

lemma second_merge:
  "merge_session doc_first ''2024-01-02'' ''Game'' ''2024-01-02 00:01:40''
     ''2024-01-02 00:02:40'' 60 = Inr doc_second"
  by (simp add: merge_session_def setdefault_def doc_first_def doc_second_def Let_def)

lemma quiet_world_io: "io_quiet (quiet_world (Dir f) c)"
  by (simp add: io_quiet_def quiet_world_def)

lemma load_empty_file: "fst (pw_load demo_lib (quiet_world (Dir (Some ''{}'')) c)) = Inr (PDict [])"
  by (simp add: pw_load_def read_text_def data_file_def quiet_world_def demo_loads Let_def)

lemma midnight_record:
  "pw_record demo_lib demo_games ''game.exe'' 1704153590 20 midnight_world
     = pw_save demo_lib doc_first (world_at_save demo_lib ''game.exe'' ''Game'' 20 midnight_world)"
proof -
  have l: "fst (pw_load demo_lib midnight_world) = Inr (PDict [])"
    by (simp add: midnight_world_def load_empty_file)
  show ?thesis
    unfolding pw_record_unfold [OF demo_game l]
    by (simp add: merge_date_def close_str_def demo_lib_fields midnight_world_def
        quiet_world_def utc_values first_merge)
qed

theorem C6_bucket_is_completion_date_witness:
  "map_of demo_games ''game.exe''
     = Some \<lparr>name = ''Game'', appid = ''1'', exe_path = ''/x/game.exe''\<rparr>
   \<and> fst (pw_load demo_lib midnight_world) = Inr (PDict [])
   \<and> fst (pw_record demo_lib demo_games ''game.exe'' 1704153590 20 midnight_world) = Inr ()
   \<and> strftime_date demo_lib 1704153590 = ''2024-01-01''
   \<and> merge_date demo_lib midnight_world = ''2024-01-02''
   \<and> (\<exists>doc'. pw_record demo_lib demo_games ''game.exe'' 1704153590 20 midnight_world
          = pw_save demo_lib doc' (world_at_save demo_lib ''game.exe'' ''Game'' 20 midnight_world)
        \<and> date_keys doc' = [''2024-01-02'']
        \<and> dict_get doc' ''2024-01-01'' = None
        \<and> record_field doc' ''2024-01-02'' ''Game'' ''total'' = Some (PInt 20)
        \<and> record_field doc' ''2024-01-02'' ''Game'' ''last_open''
            = Some (PStr ''2024-01-01 23:59:50''))
   \<and> data_file (snd (pw_record demo_lib demo_games ''game.exe'' 1704153590 20 midnight_world))
       = Some text_first"
proof -
  have l: "fst (pw_load demo_lib midnight_world) = Inr (PDict [])"
    by (simp add: midnight_world_def load_empty_file)
  have q: "io_quiet (world_at_save demo_lib ''game.exe'' ''Game'' 20 midnight_world)"
    by (simp add: io_quiet_def world_at_save_io midnight_world_def quiet_world_def)
  have r: "fst (pw_record demo_lib demo_games ''game.exe'' 1704153590 20 midnight_world) = Inr ()"
    and f: "data_file (snd (pw_record demo_lib demo_games ''game.exe'' 1704153590 20 midnight_world))
       = Some text_first"
    unfolding midnight_record using pw_save_quiet [OF q demo_dumps(2)] by simp_all
  have d: "merge_date demo_lib midnight_world = ''2024-01-02''"
    "strftime_date demo_lib 1704153590 = ''2024-01-01''"
    "strftime_datetime demo_lib 1704153590 = ''2024-01-01 23:59:50''"
    by (simp_all add: merge_date_def demo_lib_fields midnight_world_def quiet_world_def utc_values)
  have e: "date_keys (PDict []) = []" "dict_get (PDict []) ''2024-01-01'' = None"
    "absent_or_well_formed (PDict []) ''2024-01-02'' ''Game''"
    "total_of (PDict []) ''2024-01-02'' ''Game'' = 0"
    by (simp_all add: date_keys_def dict_keys_def dict_get_def absent_or_well_formed_def
        total_of_def record_field_def lookup_record_def)
  from C6_bucket_is_completion_date [OF demo_game l r] demo_game l r f d e show ?thesis
    by auto
qed


lemma two_session_first:
  "pw_record demo_lib demo_games ''game.exe'' 1704153590 20 two_session_world
     = pw_save demo_lib doc_first
         (world_at_save demo_lib ''game.exe'' ''Game'' 20 two_session_world)"
proof -
  have l: "fst (pw_load demo_lib two_session_world) = Inr (PDict [])"
    by (simp add: two_session_world_def load_empty_file)
  show ?thesis
    unfolding pw_record_unfold [OF demo_game l]
    by (simp add: merge_date_def close_str_def demo_lib_fields two_session_world_def
        quiet_world_def utc_values first_merge)
qed

theorem C3_two_sessions_witness:
  "io_quiet two_session_world
   \<and> fst (pw_load demo_lib two_session_world) = Inr (PDict [])
   \<and> absent_or_well_formed (PDict []) ''2024-01-02'' ''Game''
   \<and> merge_date demo_lib two_session_world = ''2024-01-02''
   \<and> merge_date demo_lib
        (snd (pw_record demo_lib demo_games ''game.exe'' 1704153590 20 two_session_world))
       = ''2024-01-02''
   \<and> reads_back demo_lib doc_first
   \<and> (\<exists>doc1 doc2.
         fst (pw_load demo_lib
           (snd (pw_record demo_lib demo_games ''game.exe'' 1704153590 20 two_session_world)))
           = Inr doc1
       \<and> record_field doc1 ''2024-01-02'' ''Game'' ''total'' = Some (PInt 20)
       \<and> pw_record demo_lib demo_games ''game.exe'' 1704153700 60
           (snd (pw_record demo_lib demo_games ''game.exe'' 1704153590 20 two_session_world))
           = pw_save demo_lib doc2 (world_at_save demo_lib ''game.exe'' ''Game'' 60
               (snd (pw_record demo_lib demo_games ''game.exe'' 1704153590 20 two_session_world)))
       \<and> record_field doc2 ''2024-01-02'' ''Game'' ''total'' = Some (PInt 80)
       \<and> record_field doc2 ''2024-01-02'' ''Game'' ''last_open''
           = Some (PStr ''2024-01-02 00:01:40'')
       \<and> record_field doc2 ''2024-01-02'' ''Game'' ''last_close''
           = Some (PStr ''2024-01-02 00:02:40''))"
proof -
  let ?w = two_session_world
  let ?w1 = "snd (pw_record demo_lib demo_games ''game.exe'' 1704153590 20 ?w)"
  have io: "io_quiet ?w"
    by (simp add: two_session_world_def quiet_world_io)
  have l: "fst (pw_load demo_lib ?w) = Inr (PDict [])"
    by (simp add: two_session_world_def load_empty_file)
  have d: "merge_date demo_lib ?w = ''2024-01-02''"
    "close_str demo_lib ?w = ''2024-01-02 00:00:10''"
    "strftime_datetime demo_lib 1704153590 = ''2024-01-01 23:59:50''"
    "strftime_datetime demo_lib 1704153700 = ''2024-01-02 00:01:40''"
    by (simp_all add: merge_date_def close_str_def demo_lib_fields two_session_world_def
        quiet_world_def utc_values)
  have c1: "clock ?w1 = (\<lambda>k. if k < 2 then 1704153610 else 1704153760)" "clock_reads ?w1 = 2"
    using pw_record_clock(1,3) [where lib = demo_lib and gs = demo_games and ex = "''game.exe''"
        and ts = 1704153590 and dur = 20 and w = ?w]
    by (simp_all add: demo_game two_session_world_def quiet_world_def)
  have d1: "merge_date demo_lib ?w1 = ''2024-01-02''"
    "close_str demo_lib ?w1 = ''2024-01-02 00:02:40''"
    by (simp_all add: merge_date_def close_str_def c1 demo_lib_fields utc_values)
  have wf: "absent_or_well_formed (PDict []) ''2024-01-02'' ''Game''"
    "total_of (PDict []) ''2024-01-02'' ''Game'' = 0"
    by (simp_all add: absent_or_well_formed_def total_of_def record_field_def
        lookup_record_def dict_get_def)
  have rb: "reads_back demo_lib doc_first"
    by (simp add: reads_back_def demo_dumps demo_loads)
  have lib: "\<forall>d. merge_session (PDict []) (merge_date demo_lib ?w)
        (name \<lparr>name = ''Game'', appid = ''1'', exe_path = ''/x/game.exe''\<rparr>)
        (strftime_datetime demo_lib 1704153590) (close_str demo_lib ?w) 20 = Inr d
      \<longrightarrow> reads_back demo_lib d"
    by (simp add: d first_merge rb)
  have day: "merge_date demo_lib ?w1 = merge_date demo_lib ?w"
    by (simp add: d d1)
  from C3_two_sessions [OF io demo_game demo_game refl l _ lib day, of 1704153700 60]
    wf d d1 io l rb
  show ?thesis
    by auto
qed

section \<open>The tick: what happens to one filename\<close>

lemma step_rel_refl: "step_rel w w []"
  by (simp add: step_rel_def)

lemma step_rel_trans: "step_rel w w1 e1 \<Longrightarrow> step_rel w1 w' e2 \<Longrightarrow> step_rel w w' (e1 @ e2)"
  by (simp add: step_rel_def)

lemma starts_append: "starts x (e1 @ e2) = starts x e1 + starts x e2"
  by (simp add: starts_def)

lemma stops_append: "stops x (e1 @ e2) = stops x e1 + stops x e2"
  by (simp add: stops_def)

lemma shows_exe_iff:
  "shows_exe lib x p \<longleftrightarrow>
     (\<exists>a b path. p = Proc a b (Some path) \<and> path \<noteq> [] \<and> path_name_lower lib path = x)"
  by (cases "(lib, x, p)" rule: shows_exe.cases) auto

lemma shows_exe_unique: "shows_exe lib y p \<Longrightarrow> shows_exe lib x p \<longleftrightarrow> x = y"
  by (auto simp: shows_exe_iff)

lemma scan_okI:
  assumes "step_rel w w' evs" and "stops x evs = 0"
    and "x \<in> nr' \<longleftrightarrow> x \<in> nr \<or> (observes lib x ps \<and> map_of gs x \<noteq> None)"
    and "\<And>t. map_of rn x = Some t \<Longrightarrow> map_of rn' x = Some t \<and> starts x evs = 0"
    and "map_of rn x = None \<Longrightarrow> observes lib x ps \<and> map_of gs x \<noteq> None \<Longrightarrow>
           (\<exists>k. clock_reads w \<le> k \<and> k < clock_reads w' \<and> map_of rn' x = Some (clock w k))
           \<and> starts x evs = 1"
    and "map_of rn x = None \<Longrightarrow> \<not> (observes lib x ps \<and> map_of gs x \<noteq> None) \<Longrightarrow>
           map_of rn' x = None \<and> starts x evs = 0"
  shows "scan_ok lib gs x ps (nr, rn, w) (nr', rn', w')"
  unfolding scan_ok_def prod.case
  using assms by (intro exI [of _ evs]) simp

lemma scan_ok_same:
  assumes "\<not> (shows_exe lib x p \<and> map_of gs x \<noteq> None)"
  shows "scan_ok lib gs x [p] (nr, rn, w) (nr, rn, w)"
  by (rule scan_okI [where evs = "[]"])
    (use assms in \<open>auto simp: step_rel_def stops_def starts_def observes_def\<close>)

lemma scan_ok_warn:
  assumes "\<not> (shows_exe lib x p \<and> map_of gs x \<noteq> None)"
  shows "scan_ok lib gs x [p] (nr, rn, w) (nr, rn, pw_log (TraverseWarning e) w)"
  by (rule scan_okI [where evs = "[TraverseWarning e]"])
    (use assms in \<open>auto simp: step_rel_def stops_def starts_def observes_def pw_log_def\<close>)

lemma scan_ok_known:
  assumes "shows_exe lib y p" and "map_of gs y \<noteq> None" and "map_of rn y = Some t0"
  shows "scan_ok lib gs x [p] (nr, rn, w) (insert y nr, rn, w)"
proof (rule scan_okI [where evs = "[]"])
  show "x \<in> insert y nr \<longleftrightarrow> x \<in> nr \<or> (observes lib x [p] \<and> map_of gs x \<noteq> None)"
    using assms shows_exe_unique [OF assms(1), of x] by (auto simp: observes_def)
  show "(\<exists>k. clock_reads w \<le> k \<and> k < clock_reads w \<and> map_of rn x = Some (clock w k))
      \<and> starts x [] = 1"
    if "map_of rn x = None" "observes lib x [p] \<and> map_of gs x \<noteq> None"
    using that assms shows_exe_unique [OF assms(1), of x] by (auto simp: observes_def)
qed (simp_all add: step_rel_def stops_def starts_def)

lemma scan_ok_new:
  assumes "shows_exe lib y p" and "map_of gs y \<noteq> None" and "map_of rn y = None"
  shows "scan_ok lib gs x [p] (nr, rn, w)
     (insert y nr, dict_set rn y (clock w (clock_reads w)),
      pw_log (Startup y nm pd pth) (w\<lparr>clock_reads := Suc (clock_reads w)\<rparr>))"
proof (rule scan_okI [where evs = "[Startup y nm pd pth]"])
  have same: "observes lib x [p] \<longleftrightarrow> x = y"
    using shows_exe_unique [OF assms(1), of x] by (simp add: observes_def)
  show "step_rel w (pw_log (Startup y nm pd pth) (w\<lparr>clock_reads := Suc (clock_reads w)\<rparr>))
      [Startup y nm pd pth]"
    by (simp add: step_rel_def pw_log_def)
  show "stops x [Startup y nm pd pth] = 0"
    by (simp add: stops_def)
  show "x \<in> insert y nr \<longleftrightarrow> x \<in> nr \<or> (observes lib x [p] \<and> map_of gs x \<noteq> None)"
    using same assms(2) by auto
  show "map_of (dict_set rn y (clock w (clock_reads w))) x = Some t
      \<and> starts x [Startup y nm pd pth] = 0" if "map_of rn x = Some t" for t
    using that assms(3) by (auto simp: map_of_dict_set starts_def)
  show "(\<exists>k. clock_reads w \<le> k
        \<and> k < clock_reads (pw_log (Startup y nm pd pth) (w\<lparr>clock_reads := Suc (clock_reads w)\<rparr>))
        \<and> map_of (dict_set rn y (clock w (clock_reads w))) x = Some (clock w k))
      \<and> starts x [Startup y nm pd pth] = 1"
    if "map_of rn x = None" "observes lib x [p] \<and> map_of gs x \<noteq> None"
  proof -
    from that same have "x = y" by simp
    then show ?thesis
      by (auto simp: map_of_dict_set starts_def pw_log_def intro!: exI [of _ "clock_reads w"])
  qed
  show "map_of (dict_set rn y (clock w (clock_reads w))) x = None
      \<and> starts x [Startup y nm pd pth] = 0"
    if "map_of rn x = None" "\<not> (observes lib x [p] \<and> map_of gs x \<noteq> None)"
  proof -
    from that same assms(2) have "x \<noteq> y" by auto
    with that show ?thesis
      by (simp add: map_of_dict_set starts_def)
  qed
qed


lemma observes_append: "observes lib x (ps1 @ ps2) \<longleftrightarrow> observes lib x ps1 \<or> observes lib x ps2"
  by (simp add: observes_def list_ex_iff) blast

lemma scan_ok_trans:
  assumes "scan_ok lib gs x ps1 s s1" and "scan_ok lib gs x ps2 s1 s'"
  shows "scan_ok lib gs x (ps1 @ ps2) s s'"
proof -
  obtain nr rn w where s: "s = (nr, rn, w)" by (cases s)
  obtain nr1 rn1 w1 where s1: "s1 = (nr1, rn1, w1)" by (cases s1)
  obtain nr' rn' w' where s': "s' = (nr', rn', w')" by (cases s')
  from assms(1) [unfolded s s1 scan_ok_def prod.case] obtain e1 where a:
    "step_rel w w1 e1" "stops x e1 = 0"
    "x \<in> nr1 \<longleftrightarrow> x \<in> nr \<or> (observes lib x ps1 \<and> map_of gs x \<noteq> None)"
    "\<forall>t. map_of rn x = Some t \<longrightarrow> map_of rn1 x = Some t \<and> starts x e1 = 0"
    "map_of rn x = None \<and> observes lib x ps1 \<and> map_of gs x \<noteq> None \<longrightarrow>
           (\<exists>k. clock_reads w \<le> k \<and> k < clock_reads w1 \<and> map_of rn1 x = Some (clock w k))
           \<and> starts x e1 = 1"
    "map_of rn x = None \<and> \<not> (observes lib x ps1 \<and> map_of gs x \<noteq> None) \<longrightarrow>
           map_of rn1 x = None \<and> starts x e1 = 0"
    by blast
  from assms(2) [unfolded s1 s' scan_ok_def prod.case] obtain e2 where b:
    "step_rel w1 w' e2" "stops x e2 = 0"
    "x \<in> nr' \<longleftrightarrow> x \<in> nr1 \<or> (observes lib x ps2 \<and> map_of gs x \<noteq> None)"
    "\<forall>t. map_of rn1 x = Some t \<longrightarrow> map_of rn' x = Some t \<and> starts x e2 = 0"
    "map_of rn1 x = None \<and> observes lib x ps2 \<and> map_of gs x \<noteq> None \<longrightarrow>
           (\<exists>k. clock_reads w1 \<le> k \<and> k < clock_reads w' \<and> map_of rn' x = Some (clock w1 k))
           \<and> starts x e2 = 1"
    "map_of rn1 x = None \<and> \<not> (observes lib x ps2 \<and> map_of gs x \<noteq> None) \<longrightarrow>
           map_of rn' x = None \<and> starts x e2 = 0"
    by blast
  from a(1) b(1) have cl: "clock w1 = clock w" "clock_reads w \<le> clock_reads w1"
    "clock_reads w1 \<le> clock_reads w'"
    by (simp_all add: step_rel_def)
  show ?thesis
    unfolding s s'
  proof (rule scan_okI [where evs = "e1 @ e2"])
    show "step_rel w w' (e1 @ e2)"
      using a(1) b(1) by (rule step_rel_trans)
    show "stops x (e1 @ e2) = 0"
      using a(2) b(2) by (simp add: stops_append)
    show "x \<in> nr' \<longleftrightarrow> x \<in> nr \<or> (observes lib x (ps1 @ ps2) \<and> map_of gs x \<noteq> None)"
      using a(3) b(3) by (auto simp: observes_append)
    show "map_of rn' x = Some t \<and> starts x (e1 @ e2) = 0" if "map_of rn x = Some t" for t
      using a(4) b(4) that by (simp add: starts_append)
    show "(\<exists>k. clock_reads w \<le> k \<and> k < clock_reads w' \<and> map_of rn' x = Some (clock w k))
           \<and> starts x (e1 @ e2) = 1"
      if n: "map_of rn x = None" and m: "observes lib x (ps1 @ ps2) \<and> map_of gs x \<noteq> None"
    proof (cases "observes lib x ps1")
      case True
      with a(5) n m obtain k where k: "clock_reads w \<le> k" "k < clock_reads w1"
        "map_of rn1 x = Some (clock w k)" and st: "starts x e1 = 1"
        by blast
      from b(4) k cl st show ?thesis
        by (auto simp: starts_append intro!: exI [of _ k])
    next
      case False
      with a(6) n have n1: "map_of rn1 x = None" and st: "starts x e1 = 0"
        by simp_all
      from False m have "observes lib x ps2 \<and> map_of gs x \<noteq> None"
        by (simp add: observes_append)
      with b(5) n1 obtain k where k: "clock_reads w1 \<le> k" "k < clock_reads w'"
        "map_of rn' x = Some (clock w1 k)" and st2: "starts x e2 = 1"
        by blast
      from k cl st st2 show ?thesis
        by (auto simp: starts_append intro!: exI [of _ k])
    qed
    show "map_of rn' x = None \<and> starts x (e1 @ e2) = 0"
      if n: "map_of rn x = None" and m: "\<not> (observes lib x (ps1 @ ps2) \<and> map_of gs x \<noteq> None)"
    proof -
      from m have m1: "\<not> (observes lib x ps1 \<and> map_of gs x \<noteq> None)"
        and m2: "\<not> (observes lib x ps2 \<and> map_of gs x \<noteq> None)"
        by (auto simp: observes_append)
      from a(6) n m1 b(6) m2 show ?thesis
        by (simp add: starts_append)
    qed
  qed
qed

lemma scan_proc_ok: "scan_ok lib gs x [p] s (scan_proc lib gs p s)"
proof -
  obtain nr rn w where s: "s = (nr, rn, w)" by (cases s)
  show ?thesis
  proof (cases "\<exists>y. shows_exe lib y p \<and> map_of gs y \<noteq> None")
    case False
    then have nx: "\<not> (shows_exe lib x p \<and> map_of gs x \<noteq> None)" by blast
    from False have "scan_proc lib gs p s = s
        \<or> (\<exists>e. scan_proc lib gs p s = (nr, rn, pw_log (TraverseWarning e) w))"
      unfolding s
      by (cases p) (auto simp: scan_proc_def shows_exe_iff Let_def split: option.splits)
    with s scan_ok_same [OF nx] scan_ok_warn [OF nx] show ?thesis
      by auto
  next
    case True
    then obtain y g where y: "shows_exe lib y p" "map_of gs y = Some g" by auto
    then obtain a b path where p: "p = Proc a b (Some path)" "path \<noteq> []"
      "path_name_lower lib path = y"
      by (auto simp: shows_exe_iff)
    show ?thesis
    proof (cases "map_of rn y")
      case None
      with p y have "scan_proc lib gs p s =
         (insert y nr, dict_set rn y (clock w (clock_reads w)),
          pw_log (Startup y (name g) a (exe_path g)) (w\<lparr>clock_reads := Suc (clock_reads w)\<rparr>))"
        unfolding s by (simp add: scan_proc_def Let_def time_time_def)
      with scan_ok_new [OF y(1) _ None, of gs x nr w] y(2) s show ?thesis
        by simp
    next
      case (Some t0)
      with p y have "scan_proc lib gs p s = (insert y nr, rn, w)"
        unfolding s by (simp add: scan_proc_def Let_def)
      with scan_ok_known [OF y(1) _ Some, of gs x nr w] y(2) s show ?thesis
        by simp
    qed
  qed
qed

lemma scan_procs_ok: "scan_ok lib gs x ps s (scan_procs lib gs ps s)"
proof (induction ps arbitrary: s)
  case Nil
  obtain nr rn w where s: "s = (nr, rn, w)" by (cases s)
  show ?case
    unfolding s scan_procs.simps
    by (rule scan_okI [where evs = "[]"])
      (simp_all add: step_rel_def stops_def starts_def observes_def)
next
  case (Cons p ps)
  from scan_ok_trans [OF scan_proc_ok [of lib gs x p s] Cons.IH [of "scan_proc lib gs p s"]]
  show ?case by simp
qed


lemma map_of_dict_pop: "map_of (dict_pop d k) k' = (if k' = k then None else map_of d k')"
  by (induction d) (auto simp: dict_pop_def)

lemma pw_load_log:
  "\<exists>l. log (snd (pw_load lib w)) = log w @ l \<and> (\<forall>e \<in> set l. \<exists>c. e = LoadWarning c)"
  by (auto simp: pw_load_def read_text_def pw_log_def Let_def split: option.splits sum.splits)

lemma pw_save_log:
  "\<exists>l. log (snd (pw_save lib d w)) = log w @ l \<and> (\<forall>e \<in> set l. \<exists>c. e = SaveError c)"
  by (auto simp: pw_save_def write_text_def pw_log_def Let_def
      split: sum.splits datadir.splits write_outcome.splits)

lemma filter_none: "(\<forall>e \<in> set l. \<not> P e) \<Longrightarrow> filter P l = []"
  by (induction l) auto

lemma world_at_save_log:
  "\<exists>l. log (world_at_save lib ex nm dur w) = log w @ Shutdown ex nm dur # l
     \<and> (\<forall>e \<in> set l. \<exists>c. e = LoadWarning c)"
proof -
  let ?w2 = "pw_log (Shutdown ex nm dur) (snd (time_time w))"
  from pw_load_log [of lib ?w2] obtain l where
    "log (snd (pw_load lib ?w2)) = log ?w2 @ l" "\<forall>e \<in> set l. \<exists>c. e = LoadWarning c"
    by blast
  then show ?thesis
    by (auto simp: world_at_save_def time_time_def pw_log_def)
qed

lemma pw_record_step:
  "\<exists>evs. step_rel w (snd (pw_record lib gs ex ts dur w)) evs \<and> starts x evs = 0
     \<and> filter (is_shutdown x) evs =
         (if x = ex then (case map_of gs ex of Some g \<Rightarrow> [Shutdown ex (name g) dur] | None \<Rightarrow> [])
          else [])"
proof (cases "map_of gs ex")
  case None
  then show ?thesis
    by (intro exI [of _ "[]"]) (simp add: pw_record_def step_rel_def starts_def)
next
  case (Some g)
  let ?ws = "world_at_save lib ex (name g) dur w"
  let ?w' = "snd (pw_record lib gs ex ts dur w)"
  obtain data where l: "fst (pw_load lib w) = Inr data"
    using pw_load_Inr by blast
  from world_at_save_log [of lib ex "name g" dur w] obtain l1 where
    l1: "log ?ws = log w @ Shutdown ex (name g) dur # l1" "\<forall>e \<in> set l1. \<exists>c. e = LoadWarning c"
    by blast
  have "\<exists>l2. log ?w' = log ?ws @ l2 \<and> (\<forall>e \<in> set l2. \<exists>c. e = SaveError c)"
    using pw_record_unfold [OF Some l, of ts dur] pw_save_log [of lib _ ?ws]
    by (auto split: sum.splits)
  then obtain l2 where l2: "log ?w' = log ?ws @ l2" "\<forall>e \<in> set l2. \<exists>c. e = SaveError c"
    by blast
  have f1: "filter (is_shutdown y) l1 = []" "filter (is_startup y) l1 = []" for y
    using l1(2) by (auto intro!: filter_none)
  have f2: "filter (is_shutdown y) l2 = []" "filter (is_startup y) l2 = []" for y
    using l2(2) by (auto intro!: filter_none)
  have "step_rel w ?w' (Shutdown ex (name g) dur # l1 @ l2)"
    using l1(1) l2(1) pw_record_clock(1,2) [where lib = lib and gs = gs and ex = ex and ts = ts
        and dur = dur and w = w]
    by (simp add: step_rel_def)
  with f1 f2 Some show ?thesis
    by (intro exI [of _ "Shutdown ex (name g) dur # l1 @ l2"]) (simp add: starts_def)
qed

lemma stop_loop_ok:
  "stop_ok gs nr x rn w (fst (snd (stop_loop lib gs nr exes (rn, w))))
     (snd (snd (stop_loop lib gs nr exes (rn, w))))"
proof (induction exes arbitrary: rn w)
  case Nil
  show ?case
    unfolding stop_ok_def
    by (intro exI [of _ "[]"]) (simp add: step_rel_def starts_def)
next
  case (Cons ex exes)
  show ?case
  proof (cases "ex \<in> nr")
    case True
    with Cons.IH [of rn w] show ?thesis by simp
  next
    case False
    show ?thesis
    proof (cases "map_of rn ex")
      case None
      with False show ?thesis
        unfolding stop_ok_def
        by (intro exI [of _ "[]"]) (simp add: step_rel_def starts_def)
    next
      case (Some t0)
      let ?w1 = "w\<lparr>clock_reads := Suc (clock_reads w)\<rparr>"
      let ?d = "py_int (clock w (clock_reads w) - t0)"
      let ?rec = "pw_record lib gs ex t0 ?d ?w1"
      let ?rn1 = "dict_pop rn ex"
      from pw_record_step [of ?w1 lib gs ex t0 ?d x] obtain e1 where e1:
        "step_rel ?w1 (snd ?rec) e1" "starts x e1 = 0"
        "filter (is_shutdown x) e1 =
           (if x = ex then (case map_of gs ex of Some g \<Rightarrow> [Shutdown ex (name g) ?d] | None \<Rightarrow> [])
            else [])"
        by blast
      from e1(1) have s1: "step_rel w (snd ?rec) e1" "clock_reads w < clock_reads (snd ?rec)"
        "clock (snd ?rec) = clock w"
        by (simp_all add: step_rel_def)
      have first: "stop_ok gs nr x rn w ?rn1 (snd ?rec)"
      proof (cases "x = ex")
        case True
        with False Some s1 e1 show ?thesis
          unfolding stop_ok_def
          by (intro exI [of _ e1]) (auto simp: map_of_dict_pop intro!: exI [of _ "clock_reads w"])
      next
        case False
        with s1 e1 show ?thesis
          unfolding stop_ok_def
          by (intro exI [of _ e1]) (simp add: map_of_dict_pop)
      qed
      show ?thesis
      proof (cases "fst ?rec")
        case (Inl e)
        then have "stop_loop lib gs nr (ex # exes) (rn, w) = (Inl e, ?rn1, snd ?rec)"
          using False Some by (cases ?rec) (simp add: time_time_def Let_def)
        with first show ?thesis by simp
      next
        case (Inr u)
        then have eq: "stop_loop lib gs nr (ex # exes) (rn, w)
            = stop_loop lib gs nr exes (?rn1, snd ?rec)"
          using False Some by (cases ?rec) (simp add: time_time_def Let_def)
        let ?rn' = "fst (snd (stop_loop lib gs nr exes (?rn1, snd ?rec)))"
        let ?w' = "snd (snd (stop_loop lib gs nr exes (?rn1, snd ?rec)))"
        from Cons.IH [of ?rn1 "snd ?rec"] have second: "stop_ok gs nr x ?rn1 (snd ?rec) ?rn' ?w'" .
        from first obtain ea where a: "step_rel w (snd ?rec) ea" "starts x ea = 0"
          "(map_of ?rn1 x = map_of rn x \<and> filter (is_shutdown x) ea = [])
           \<or> (x \<notin> nr \<and> map_of ?rn1 x = None
               \<and> (\<exists>t k. map_of rn x = Some t \<and> clock_reads w \<le> k \<and> k < clock_reads (snd ?rec)
                     \<and> filter (is_shutdown x) ea =
                         (case map_of gs x of
                            Some g \<Rightarrow> [Shutdown x (name g) (py_int (clock w k - t))]
                          | None \<Rightarrow> [])))"
          unfolding stop_ok_def by blast
        from second obtain eb where b: "step_rel (snd ?rec) ?w' eb" "starts x eb = 0"
          "(map_of ?rn' x = map_of ?rn1 x \<and> filter (is_shutdown x) eb = [])
           \<or> (x \<notin> nr \<and> map_of ?rn' x = None
               \<and> (\<exists>t k. map_of ?rn1 x = Some t \<and> clock_reads (snd ?rec) \<le> k \<and> k < clock_reads ?w'
                     \<and> filter (is_shutdown x) eb =
                         (case map_of gs x of
                            Some g \<Rightarrow> [Shutdown x (name g) (py_int (clock (snd ?rec) k - t))]
                          | None \<Rightarrow> [])))"
          unfolding stop_ok_def by blast
        from a(1) b(1) have cl: "clock (snd ?rec) = clock w" "clock_reads w \<le> clock_reads (snd ?rec)"
          "clock_reads (snd ?rec) \<le> clock_reads ?w'"
          by (simp_all add: step_rel_def)
        have "stop_ok gs nr x rn w ?rn' ?w'"
          unfolding stop_ok_def
        proof (intro exI [of _ "ea @ eb"] conjI)
          show "step_rel w ?w' (ea @ eb)"
            using a(1) b(1) by (rule step_rel_trans)
          show "starts x (ea @ eb) = 0"
            using a(2) b(2) by (simp add: starts_append)
          from a(3) show "(map_of ?rn' x = map_of rn x \<and> filter (is_shutdown x) (ea @ eb) = [])
           \<or> (x \<notin> nr \<and> map_of ?rn' x = None
               \<and> (\<exists>t k. map_of rn x = Some t \<and> clock_reads w \<le> k \<and> k < clock_reads ?w'
                     \<and> filter (is_shutdown x) (ea @ eb) =
                         (case map_of gs x of
                            Some g \<Rightarrow> [Shutdown x (name g) (py_int (clock w k - t))]
                          | None \<Rightarrow> [])))"
          proof
            assume u: "map_of ?rn1 x = map_of rn x \<and> filter (is_shutdown x) ea = []"
            from b(3) show ?thesis
            proof
              assume "map_of ?rn' x = map_of ?rn1 x \<and> filter (is_shutdown x) eb = []"
              with u show ?thesis by simp
            next
              assume v: "x \<notin> nr \<and> map_of ?rn' x = None
               \<and> (\<exists>t k. map_of ?rn1 x = Some t \<and> clock_reads (snd ?rec) \<le> k \<and> k < clock_reads ?w'
                     \<and> filter (is_shutdown x) eb =
                         (case map_of gs x of
                            Some g \<Rightarrow> [Shutdown x (name g) (py_int (clock (snd ?rec) k - t))]
                          | None \<Rightarrow> []))"
              then obtain t k where tk: "map_of ?rn1 x = Some t" "clock_reads (snd ?rec) \<le> k"
                "k < clock_reads ?w'"
                "filter (is_shutdown x) eb =
                         (case map_of gs x of
                            Some g \<Rightarrow> [Shutdown x (name g) (py_int (clock (snd ?rec) k - t))]
                          | None \<Rightarrow> [])"
                by blast
              have "\<exists>t k. map_of rn x = Some t \<and> clock_reads w \<le> k \<and> k < clock_reads ?w'
                     \<and> filter (is_shutdown x) (ea @ eb) =
                         (case map_of gs x of
                            Some g \<Rightarrow> [Shutdown x (name g) (py_int (clock w k - t))]
                          | None \<Rightarrow> [])"
                using u tk cl by (intro exI [of _ t] exI [of _ k]) (simp cong: option.case_cong)
              with v show ?thesis by blast
            qed
          next
            assume u: "x \<notin> nr \<and> map_of ?rn1 x = None
               \<and> (\<exists>t k. map_of rn x = Some t \<and> clock_reads w \<le> k \<and> k < clock_reads (snd ?rec)
                     \<and> filter (is_shutdown x) ea =
                         (case map_of gs x of
                            Some g \<Rightarrow> [Shutdown x (name g) (py_int (clock w k - t))]
                          | None \<Rightarrow> []))"
            then obtain t k where tk: "map_of rn x = Some t" "clock_reads w \<le> k"
              "k < clock_reads (snd ?rec)"
              "filter (is_shutdown x) ea =
                         (case map_of gs x of
                            Some g \<Rightarrow> [Shutdown x (name g) (py_int (clock w k - t))]
                          | None \<Rightarrow> [])"
              by blast
            from u b(3) have w: "map_of ?rn' x = None \<and> filter (is_shutdown x) eb = []"
              by auto
            have "\<exists>t k. map_of rn x = Some t \<and> clock_reads w \<le> k \<and> k < clock_reads ?w'
                     \<and> filter (is_shutdown x) (ea @ eb) =
                         (case map_of gs x of
                            Some g \<Rightarrow> [Shutdown x (name g) (py_int (clock w k - t))]
                          | None \<Rightarrow> [])"
              using w tk cl by (intro exI [of _ t] exI [of _ k]) (simp cong: option.case_cong)
            with u w show ?thesis by blast
          qed
        qed
        with eq show ?thesis by simp
      qed
    qed
  qed
qed


lemma stops_0_iff: "stops x evs = 0 \<longleftrightarrow> filter (is_shutdown x) evs = []"
  by (simp add: stops_def)

lemma pw_tick_ok:
  assumes "pw_tick lib wt scan w = (r, wt', w')"
  shows "\<exists>evs. tick_ok lib x scan wt w wt' w' evs"
proof -
  let ?gs = "games wt"
  obtain nr rn1 w1 where sc: "scan_procs lib ?gs scan ({}, running wt, w) = (nr, rn1, w1)"
    by (cases "scan_procs lib ?gs scan ({}, running wt, w)")
  obtain r2 rn2 w2 where st: "stop_loop lib ?gs nr (dict_keys rn1) (rn1, w1) = (r2, rn2, w2)"
    by (cases "stop_loop lib ?gs nr (dict_keys rn1) (rn1, w1)")
  from assms sc st have res: "wt' = wt\<lparr>running := rn2\<rparr>" "w' = w2"
    by (simp_all add: pw_tick_def)
  let ?m = "observes lib x scan \<and> map_of ?gs x \<noteq> None"
  have so: "scan_ok lib ?gs x scan ({}, running wt, w) (nr, rn1, w1)"
    using scan_procs_ok [of lib ?gs x scan "({}, running wt, w)"] sc by simp
  from so [unfolded scan_ok_def prod.case stops_0_iff]
  obtain e1 where a: "step_rel w w1 e1" "filter (is_shutdown x) e1 = []"
    "x \<in> nr \<longleftrightarrow> x \<in> {} \<or> ?m"
    "\<forall>t. map_of (running wt) x = Some t \<longrightarrow> map_of rn1 x = Some t \<and> starts x e1 = 0"
    "map_of (running wt) x = None \<and> ?m \<longrightarrow>
       (\<exists>k. clock_reads w \<le> k \<and> k < clock_reads w1 \<and> map_of rn1 x = Some (clock w k))
       \<and> starts x e1 = 1"
    "map_of (running wt) x = None \<and> \<not> ?m \<longrightarrow> map_of rn1 x = None \<and> starts x e1 = 0"
    by blast
  have sto: "stop_ok ?gs nr x rn1 w1 rn2 w2"
    using stop_loop_ok [of ?gs nr x rn1 w1 lib "dict_keys rn1"] st by simp
  from sto [unfolded stop_ok_def]
  obtain e2 where b: "step_rel w1 w2 e2" "starts x e2 = 0"
    "(map_of rn2 x = map_of rn1 x \<and> filter (is_shutdown x) e2 = [])
     \<or> (x \<notin> nr \<and> map_of rn2 x = None
         \<and> (\<exists>t k. map_of rn1 x = Some t \<and> clock_reads w1 \<le> k \<and> k < clock_reads w2
               \<and> filter (is_shutdown x) e2 =
                   (case map_of ?gs x of
                      Some g \<Rightarrow> [Shutdown x (name g) (py_int (clock w1 k - t))]
                    | None \<Rightarrow> [])))"
    by blast
  from a(1) b(1) have cl: "clock w1 = clock w" "clock_reads w \<le> clock_reads w1"
    "clock_reads w1 \<le> clock_reads w2"
    by (simp_all add: step_rel_def)
  have sr: "step_rel w w2 (e1 @ e2)"
    using a(1) b(1) by (rule step_rel_trans)
  have c1: "starts x (e1 @ e2) = 1 \<and> filter (is_shutdown x) (e1 @ e2) = []
        \<and> (\<exists>k. clock_reads w \<le> k \<and> k < clock_reads w2 \<and> map_of rn2 x = Some (clock w k))"
    if h: "map_of (running wt) x = None \<and> ?m"
  proof -
    from a(5) h obtain k where k: "clock_reads w \<le> k" "k < clock_reads w1"
      "map_of rn1 x = Some (clock w k)" and s1: "starts x e1 = 1"
      by blast
    from h a(3) have "x \<in> nr" by simp
    with b(3) have u: "map_of rn2 x = map_of rn1 x" "filter (is_shutdown x) e2 = []"
      by auto
    from k u cl have "\<exists>k. clock_reads w \<le> k \<and> k < clock_reads w2 \<and> map_of rn2 x = Some (clock w k)"
      by (intro exI [of _ k]) simp
    with s1 b(2) a(2) u show ?thesis
      by (simp add: starts_append)
  qed
  have c2: "starts x (e1 @ e2) = 0 \<and> filter (is_shutdown x) (e1 @ e2) = [] \<and> map_of rn2 x = None"
    if h: "map_of (running wt) x = None \<and> \<not> ?m"
  proof -
    from a(6) h have n: "map_of rn1 x = None" "starts x e1 = 0" by simp_all
    with b(3) have u: "map_of rn2 x = None" "filter (is_shutdown x) e2 = []"
      by auto
    with n b(2) a(2) show ?thesis
      by (simp add: starts_append)
  qed
  have c3: "starts x (e1 @ e2) = 0 \<and> filter (is_shutdown x) (e1 @ e2) = []
        \<and> map_of rn2 x = Some t"
    if h: "map_of (running wt) x = Some t \<and> ?m" for t
  proof -
    from a(4) h have n: "map_of rn1 x = Some t" "starts x e1 = 0" by simp_all
    from h a(3) have "x \<in> nr" by simp
    with b(3) n have u: "map_of rn2 x = Some t" "filter (is_shutdown x) e2 = []"
      by auto
    with n b(2) a(2) show ?thesis
      by (simp add: starts_append)
  qed
  have c4: "starts x (e1 @ e2) = 0
        \<and> ((map_of rn2 x = Some t \<and> filter (is_shutdown x) (e1 @ e2) = [])
           \<or> (map_of rn2 x = None
               \<and> (\<exists>k. clock_reads w \<le> k \<and> k < clock_reads w2
                     \<and> filter (is_shutdown x) (e1 @ e2) =
                         (case map_of ?gs x of
                            Some g \<Rightarrow> [Shutdown x (name g) (py_int (clock w k - t))]
                          | None \<Rightarrow> []))))"
    if h: "map_of (running wt) x = Some t \<and> \<not> ?m" for t
  proof -
    from a(4) h have n: "map_of rn1 x = Some t" "starts x e1 = 0" by simp_all
    from b(3) show ?thesis
    proof
      assume "map_of rn2 x = map_of rn1 x \<and> filter (is_shutdown x) e2 = []"
      with n b(2) a(2) show ?thesis
        by (simp add: starts_append)
    next
      assume v: "x \<notin> nr \<and> map_of rn2 x = None
         \<and> (\<exists>t k. map_of rn1 x = Some t \<and> clock_reads w1 \<le> k \<and> k < clock_reads w2
               \<and> filter (is_shutdown x) e2 =
                   (case map_of ?gs x of
                      Some g \<Rightarrow> [Shutdown x (name g) (py_int (clock w1 k - t))]
                    | None \<Rightarrow> []))"
      with n obtain k where k: "clock_reads w1 \<le> k" "k < clock_reads w2"
        "filter (is_shutdown x) e2 =
                   (case map_of ?gs x of
                      Some g \<Rightarrow> [Shutdown x (name g) (py_int (clock w1 k - t))]
                    | None \<Rightarrow> [])"
        by auto
      have "\<exists>k. clock_reads w \<le> k \<and> k < clock_reads w2
                     \<and> filter (is_shutdown x) (e1 @ e2) =
                         (case map_of ?gs x of
                            Some g \<Rightarrow> [Shutdown x (name g) (py_int (clock w k - t))]
                          | None \<Rightarrow> [])"
        using k cl a(2) by (intro exI [of _ k]) (simp cong: option.case_cong)
      with v n b(2) show ?thesis
        by (simp add: starts_append)
    qed
  qed
  show ?thesis
    unfolding tick_ok_def res
    using sr c1 c2 c3 c4 by (intro exI [of _ "e1 @ e2"]) simp
qed

section \<open>Sequences of ticks\<close>

lemma monitor_loop_Cons:
  assumes "pw_tick lib wt scan w = (r, wt1, w1)"
  shows "\<exists>ev. monitor_loop lib (scan # scans) (wt, w)
            = monitor_loop lib scans (wt1, w1\<lparr>log := log w1 @ ev\<rparr>)
         \<and> starts x ev = 0 \<and> stops x ev = 0"
proof (cases r)
  case (Inl e)
  with assms show ?thesis
    by (intro exI [of _ "[MonitorException e]"]) (simp add: pw_log_def starts_def stops_def)
next
  case (Inr u)
  with assms show ?thesis
    by (intro exI [of _ "[]"]) (simp add: starts_def stops_def)
qed



lemma pw_tick_closed:
  assumes "catalog_closed wt" and "pw_tick lib wt scan w = (r, wt', w')"
  shows "catalog_closed wt' \<and> games wt' = games wt"
proof -
  have "map_of (games wt') x \<noteq> None \<and> games wt' = games wt" if "map_of (running wt') x \<noteq> None" for x
  proof -
    from pw_tick_ok [OF assms(2), of x] obtain e where "tick_ok lib x scan wt w wt' w' e" ..
    with that assms(1) show ?thesis
      unfolding tick_ok_def catalog_closed_def
      by (cases "map_of (running wt) x"; auto)
  qed
  moreover from pw_tick_ok [OF assms(2), of undefined] have "games wt' = games wt"
    unfolding tick_ok_def by auto
  ultimately show ?thesis
    unfolding catalog_closed_def by auto
qed

lemma monitor_loop_closed:
  assumes "catalog_closed wt"
  shows "catalog_closed (fst (monitor_loop lib scans (wt, w)))
     \<and> games (fst (monitor_loop lib scans (wt, w))) = games wt"
  using assms
proof (induction scans arbitrary: wt w)
  case Nil
  then show ?case by simp
next
  case (Cons scan scans)
  obtain r wt1 w1 where t: "pw_tick lib wt scan w = (r, wt1, w1)"
    by (cases "pw_tick lib wt scan w")
  from pw_tick_closed [OF Cons.prems t] have c: "catalog_closed wt1" "games wt1 = games wt"
    by simp_all
  from monitor_loop_Cons [OF t, of scans undefined] obtain ev where
    m: "monitor_loop lib (scan # scans) (wt, w)
          = monitor_loop lib scans (wt1, w1\<lparr>log := log w1 @ ev\<rparr>)"
    by blast
  from Cons.IH [OF c(1), of "w1\<lparr>log := log w1 @ ev\<rparr>"] c(2) show ?case
    unfolding m by simp
qed

lemma pw_init_Inr:
  assumes "pw_init gs w0 = (Inr wt0, w1)"
  shows "wt0 = \<lparr>games = gs, running = []\<rparr>"
    and "\<exists>ev. log w1 = log w0 @ ev \<and> starts x ev = 0 \<and> stops x ev = 0"
  using assms
  by (auto simp: pw_init_def mkdir_def write_text_def pw_log_def Let_def starts_def stops_def
      split: prod.splits sum.splits datadir.splits option.splits write_outcome.splits if_splits)

lemma in_keys_iff: "x \<in> set (dict_keys d) \<longleftrightarrow> (\<exists>v. map_of d x = Some v)"
  using map_of_None_keys [of d x] by (cases "map_of d x") simp_all

text \<open>
  C10. The watcher built by an \<open>__init__\<close> that returns has an empty running-set. In
  every state reached from it by any sequence of ticks, the catalog is the one given at
  construction, every filename of the running-set is a key of the catalog, and its
  lookup in the catalog succeeds.
\<close>

theorem C10_running_within_catalog:
  assumes "pw_init gs w0 = (Inr wt0, w1)"
    and "monitor_loop lib scans (wt0, w1) = (wt, w)"
  shows "running wt0 = [] \<and> games wt = gs
     \<and> set (dict_keys (running wt)) \<subseteq> set (dict_keys gs)
     \<and> (\<forall>x \<in> set (dict_keys (running wt)). \<exists>g. map_of (games wt) x = Some g)"
proof -
  from pw_init_Inr(1) [OF assms(1)] have i: "running wt0 = []" "games wt0 = gs"
    by simp_all
  then have "catalog_closed wt0"
    by (simp add: catalog_closed_def)
  from monitor_loop_closed [OF this, of lib scans w1] assms(2) i
  have c: "catalog_closed wt" "games wt = gs"
    by simp_all
  have k: "\<exists>g. map_of gs x = Some g" if "x \<in> set (dict_keys (running wt))" for x
  proof -
    from that obtain v where "map_of (running wt) x = Some v"
      unfolding in_keys_iff ..
    with c show ?thesis
      unfolding catalog_closed_def by blast
  qed
  have s: "x \<in> set (dict_keys gs)" if "x \<in> set (dict_keys (running wt))" for x
    using k [OF that] unfolding in_keys_iff .
  from s have "set (dict_keys (running wt)) \<subseteq> set (dict_keys gs)"
    by blast
  moreover from k c(2) have "\<forall>x \<in> set (dict_keys (running wt)). \<exists>g. map_of (games wt) x = Some g"
    by simp
  ultimately show ?thesis
    using i(1) c(2) by simp
qed

lemma stops_single:
  "filter (is_shutdown x) evs = [e] \<Longrightarrow> stops x evs = 1"
  by (simp add: stops_def)

lemma pw_tick_inv:
  assumes "sess_inv x wt w" and "pw_tick lib wt scan w = (r, wt', w')"
  shows "sess_inv x wt' w'"
proof -
  from pw_tick_ok [OF assms(2), of x] obtain e where t: "tick_ok lib x scan wt w wt' w' e" ..
  then have l: "log w' = log w @ e" and g: "games wt' = games wt"
    by (simp_all add: tick_ok_def step_rel_def)
  show ?thesis
  proof (cases "map_of (running wt) x")
    case None
    with t assms(1) l g show ?thesis
      unfolding tick_ok_def sess_inv_def
      by (cases "observes lib x scan \<and> map_of (games wt) x \<noteq> None")
        (auto simp: starts_append stops_append stops_0_iff [symmetric])
  next
    case (Some t0)
    with assms(1) obtain gm where gm: "map_of (games wt) x = Some gm"
      unfolding sess_inv_def by auto
    show ?thesis
    proof (cases "observes lib x scan \<and> map_of (games wt) x \<noteq> None")
      case True
      with t Some assms(1) l g show ?thesis
        unfolding tick_ok_def sess_inv_def
        by (auto simp: starts_append stops_append stops_0_iff [symmetric])
    next
      case False
      with t Some have s0: "starts x e = 0"
        and d: "(map_of (running wt') x = Some t0 \<and> filter (is_shutdown x) e = [])
           \<or> (map_of (running wt') x = None
               \<and> (\<exists>k. clock_reads w \<le> k \<and> k < clock_reads w'
                     \<and> filter (is_shutdown x) e =
                         (case map_of (games wt) x of
                            Some g \<Rightarrow> [Shutdown x (name g) (py_int (clock w k - t0))]
                          | None \<Rightarrow> [])))"
        unfolding tick_ok_def by blast+
      from d show ?thesis
      proof
        assume "map_of (running wt') x = Some t0 \<and> filter (is_shutdown x) e = []"
        with s0 Some assms(1) l g gm show ?thesis
          unfolding sess_inv_def
          by (simp add: starts_append stops_append stops_0_iff)
      next
        assume a: "map_of (running wt') x = None
               \<and> (\<exists>k. clock_reads w \<le> k \<and> k < clock_reads w'
                     \<and> filter (is_shutdown x) e =
                         (case map_of (games wt) x of
                            Some g \<Rightarrow> [Shutdown x (name g) (py_int (clock w k - t0))]
                          | None \<Rightarrow> []))"
        with gm have "stops x e = 1"
          by (auto simp: stops_def)
        with a s0 Some assms(1) l show ?thesis
          unfolding sess_inv_def
          by (simp add: starts_append stops_append)
      qed
    qed
  qed
qed

lemma monitor_loop_inv:
  assumes "sess_inv x wt w"
  shows "sess_inv x (fst (monitor_loop lib scans (wt, w))) (snd (monitor_loop lib scans (wt, w)))"
  using assms
proof (induction scans arbitrary: wt w)
  case Nil
  then show ?case by simp
next
  case (Cons scan scans)
  obtain r wt1 w1 where t: "pw_tick lib wt scan w = (r, wt1, w1)"
    by (cases "pw_tick lib wt scan w")
  from pw_tick_inv [OF Cons.prems t] have i: "sess_inv x wt1 w1" .
  from monitor_loop_Cons [OF t, of scans x] obtain ev where
    m: "monitor_loop lib (scan # scans) (wt, w)
          = monitor_loop lib scans (wt1, w1\<lparr>log := log w1 @ ev\<rparr>)"
    and ev: "starts x ev = 0" "stops x ev = 0"
    by blast
  from i ev have "sess_inv x wt1 (w1\<lparr>log := log w1 @ ev\<rparr>)"
    by (simp add: sess_inv_def starts_append stops_append)
  from Cons.IH [OF this] show ?case
    unfolding m .
qed

lemma pw_init_inv:
  assumes "pw_init gs w0 = (Inr wt0, w1)" and "starts x (log w0) = stops x (log w0)"
  shows "sess_inv x wt0 w1"
proof -
  from pw_init_Inr(1) [OF assms(1)] pw_init_Inr(2) [OF assms(1), of x] obtain ev where
    "wt0 = \<lparr>games = gs, running = []\<rparr>" "log w1 = log w0 @ ev" "starts x ev = 0" "stops x ev = 0"
    by blast
  with assms(2) show ?thesis
    by (simp add: sess_inv_def starts_append stops_append)
qed

text \<open>
  C2. In any run that starts with \<open>__init__\<close> on a log with as many start as stop
  events of a filename, every stop event a tick emits for that filename finds, in the
  log before the tick, exactly one start event more than stop events; the filename was
  in \<open>running\<close> with a start time \<open>start_ts\<close> and is not in \<open>running\<close> after the
  tick; the tick emits no other stop event and no start event for it; the event's
  display name is the catalog's; and the duration it reports, the one handed to
  \<open>_record\<close>, is a clock reading of this tick minus \<open>start_ts\<close>, truncated to an
  integer.
\<close>

theorem C2_stop_pairs_with_start:
  assumes "pw_init gs w0 = (Inr wt0, w1)"
    and "starts x (log w0) = stops x (log w0)"
    and "monitor_loop lib scans (wt0, w1) = (wt, w)"
    and "pw_tick lib wt scan w = (r, wt', w')"
    and "Shutdown x nm d \<in> set (new_events w w')"
  shows "starts x (log w) = stops x (log w) + 1
     \<and> starts x (new_events w w') = 0
     \<and> stops x (new_events w w') = 1
     \<and> (\<exists>start_ts k. map_of (running wt) x = Some start_ts
           \<and> clock_reads w \<le> k \<and> k < clock_reads w'
           \<and> d = py_int (clock w k - start_ts))
     \<and> (\<exists>g. map_of gs x = Some g \<and> nm = name g)
     \<and> map_of (running wt') x = None"
proof -
  from pw_init_inv [OF assms(1,2)] have "sess_inv x wt0 w1" .
  from monitor_loop_inv [OF this, of lib scans] assms(3) have inv: "sess_inv x wt w"
    by simp
  from pw_init_Inr(1) [OF assms(1)] have "games wt0 = gs" by simp
  moreover have "catalog_closed wt0"
    using pw_init_Inr(1) [OF assms(1)] by (simp add: catalog_closed_def)
  ultimately have gs: "games wt = gs"
    using monitor_loop_closed [of wt0 lib scans w1] assms(3) by simp
  from pw_tick_ok [OF assms(4), of x] obtain e where t: "tick_ok lib x scan wt w wt' w' e" ..
  then have l: "log w' = log w @ e"
    by (simp add: tick_ok_def step_rel_def)
  then have ne: "new_events w w' = e"
    by (simp add: new_events_def)
  with assms(5) have mem: "Shutdown x nm d \<in> set (filter (is_shutdown x) e)"
    by simp
  have nonempty: "filter (is_shutdown x) e \<noteq> []"
  proof
    assume a: "filter (is_shutdown x) e = []"
    from mem [unfolded a] show False by simp
  qed
  with t obtain t0 where t0: "map_of (running wt) x = Some t0"
    "\<not> (observes lib x scan \<and> map_of (games wt) x \<noteq> None)"
    unfolding tick_ok_def
    by (cases "map_of (running wt) x";
        cases "observes lib x scan \<and> map_of (games wt) x \<noteq> None") auto
  with inv obtain gm where gm: "map_of (games wt) x = Some gm"
    unfolding sess_inv_def by auto
  from t t0 nonempty obtain k where k: "starts x e = 0" "map_of (running wt') x = None"
    "clock_reads w \<le> k" "k < clock_reads w'"
    "filter (is_shutdown x) e =
       (case map_of (games wt) x of
          Some g \<Rightarrow> [Shutdown x (name g) (py_int (clock w k - t0))]
        | None \<Rightarrow> [])"
    unfolding tick_ok_def by blast
  from k(5) gm have f: "filter (is_shutdown x) e = [Shutdown x (name gm) (py_int (clock w k - t0))]"
    by simp
  from mem [unfolded f]
  have eq: "nm = name gm" "d = py_int (clock w k - t0)"
    by simp_all
  from inv t0 have bal: "starts x (log w) = stops x (log w) + 1"
    by (simp add: sess_inv_def)
  have "\<exists>start_ts k. map_of (running wt) x = Some start_ts
           \<and> clock_reads w \<le> k \<and> k < clock_reads w'
           \<and> d = py_int (clock w k - start_ts)"
    using t0(1) k(3,4) eq(2) by blast
  moreover have "\<exists>g. map_of gs x = Some g \<and> nm = name g"
    using gm gs eq(1) by simp
  ultimately show ?thesis
    using bal k(1,2) stops_single [OF f] ne by simp
qed

section \<open>The scenario, evaluated\<close>


lemma demo_name: "path_name_lower demo_lib ''/x/Game.exe'' = ''game.exe''"
  by (simp add: demo_lib_fields last_component_lower_def ascii_lower_def)

lemma demo_tick_start:
  "pw_tick demo_lib \<lparr>games = demo_games, running = []\<rparr> [demo_proc] w =
     (Inr (), \<lparr>games = demo_games, running = [(''game.exe'', clock w (clock_reads w))]\<rparr>,
      pw_log (Startup ''game.exe'' ''Game'' (Some 4242) ''/x/game.exe'')
        (w\<lparr>clock_reads := Suc (clock_reads w)\<rparr>))"
  by (simp add: pw_tick_def scan_proc_def demo_proc_def demo_name demo_games_def
      time_time_def dict_keys_def Let_def)


lemma demo_tick_stop:
  "pw_tick demo_lib \<lparr>games = demo_games, running = [(''game.exe'', t)]\<rparr> [] w =
     (fst (pw_record demo_lib demo_games ''game.exe'' t (py_int (clock w (clock_reads w) - t))
             (w\<lparr>clock_reads := Suc (clock_reads w)\<rparr>)),
      \<lparr>games = demo_games, running = []\<rparr>,
      snd (pw_record demo_lib demo_games ''game.exe'' t (py_int (clock w (clock_reads w) - t))
             (w\<lparr>clock_reads := Suc (clock_reads w)\<rparr>)))"
  by (simp add: pw_tick_def dict_keys_def dict_pop_def time_time_def Let_def
      split: prod.splits sum.splits)

lemma demo_init:
  "pw_init demo_games run_world =
     (Inr fresh_watcher, run_world\<lparr>log := [Initialized, MonitoredCount 1, DataFilePath]\<rparr>)"
  by (simp add: pw_init_def mkdir_def data_file_def run_world_def quiet_world_def pw_log_def
      fresh_watcher_def demo_games_def dict_keys_def)

lemma started_eq:
  "started =
     (\<lparr>games = demo_games, running = [(''game.exe'', 1704153590)]\<rparr>,
      run_world\<lparr>clock_reads := 1,
        log := [Initialized, MonitoredCount 1, DataFilePath,
                Startup ''game.exe'' ''Game'' (Some 4242) ''/x/game.exe'']\<rparr>)"
  unfolding started_def demo_init fresh_watcher_def
  by (simp add: demo_tick_start pw_log_def) (simp add: run_world_def quiet_world_def run_clock_def)


theorem C10_running_within_catalog_witness:
  "pw_init demo_games run_world = (Inr fresh_watcher, snd (pw_init demo_games run_world))
   \<and> running fresh_watcher = []
   \<and> games (fst started) = demo_games
   \<and> running (fst started) = [(''game.exe'', 1704153590)]
   \<and> set (dict_keys (running (fst started))) \<subseteq> set (dict_keys demo_games)
   \<and> map_of (games (fst started)) ''game.exe''
       = Some \<lparr>name = ''Game'', appid = ''1'', exe_path = ''/x/game.exe''\<rparr>"
proof -
  have i: "pw_init demo_games run_world = (Inr fresh_watcher, snd (pw_init demo_games run_world))"
    unfolding demo_init by simp
  have m: "monitor_loop demo_lib [[demo_proc]] (fresh_watcher, snd (pw_init demo_games run_world))
      = (fst started, snd started)"
    unfolding started_def by (rule prod.collapse [symmetric])
  have rn: "running (fst started) = [(''game.exe'', 1704153590)]"
    unfolding started_eq by simp
  from C10_running_within_catalog [OF i m]
  have c: "running fresh_watcher = []" "games (fst started) = demo_games"
    "set (dict_keys (running (fst started))) \<subseteq> set (dict_keys demo_games)"
    by blast+
  have gl: "map_of (games (fst started)) ''game.exe''
       = Some \<lparr>name = ''Game'', appid = ''1'', exe_path = ''/x/game.exe''\<rparr>"
    unfolding c(2) by (simp add: demo_games_def)
  from i c rn gl show ?thesis
    by blast
qed


lemma stopping_record:
  "pw_record demo_lib demo_games ''game.exe'' 1704153590 20 stopping_world
     = pw_save demo_lib doc_first (world_at_save demo_lib ''game.exe'' ''Game'' 20 stopping_world)"
proof -
  have l: "fst (pw_load demo_lib stopping_world) = Inr (PDict [])"
    by (simp add: stopping_world_def run_world_def quiet_world_def pw_load_def read_text_def
        data_file_def demo_loads Let_def)
  have d: "merge_date demo_lib stopping_world = ''2024-01-02''"
    "close_str demo_lib stopping_world = ''2024-01-02 00:00:10''"
    "strftime_datetime demo_lib 1704153590 = ''2024-01-01 23:59:50''"
    by (simp_all add: merge_date_def close_str_def demo_lib_fields stopping_world_def
        run_world_def quiet_world_def run_clock_def utc_values)
  show ?thesis
    unfolding pw_record_unfold [OF demo_game l] d
    by (simp add: first_merge)
qed

lemma stopping_result:
  "fst (pw_record demo_lib demo_games ''game.exe'' 1704153590 20 stopping_world) = Inr ()"
  "data_file (snd (pw_record demo_lib demo_games ''game.exe'' 1704153590 20 stopping_world))
     = Some text_first"
  "log (snd (pw_record demo_lib demo_games ''game.exe'' 1704153590 20 stopping_world))
     = log stopping_world @ [Shutdown ''game.exe'' ''Game'' 20]"
  "clock_reads (snd (pw_record demo_lib demo_games ''game.exe'' 1704153590 20 stopping_world)) = 4"
proof -
  let ?ws = "world_at_save demo_lib ''game.exe'' ''Game'' 20 stopping_world"
  have q: "io_quiet ?ws"
    by (simp add: io_quiet_def world_at_save_io stopping_world_def run_world_def quiet_world_def)
  have lg: "log ?ws = log stopping_world @ [Shutdown ''game.exe'' ''Game'' 20]"
    by (simp add: world_at_save_def time_time_def pw_log_def pw_load_def read_text_def
        data_file_def stopping_world_def run_world_def quiet_world_def demo_loads Let_def)
  from pw_save_quiet [OF q demo_dumps(2)] lg
  show "fst (pw_record demo_lib demo_games ''game.exe'' 1704153590 20 stopping_world) = Inr ()"
    "data_file (snd (pw_record demo_lib demo_games ''game.exe'' 1704153590 20 stopping_world))
     = Some text_first"
    "log (snd (pw_record demo_lib demo_games ''game.exe'' 1704153590 20 stopping_world))
     = log stopping_world @ [Shutdown ''game.exe'' ''Game'' 20]"
    unfolding stopping_record by simp_all
  show "clock_reads (snd (pw_record demo_lib demo_games ''game.exe'' 1704153590 20 stopping_world)) = 4"
    using pw_record_clock(3) [where lib = demo_lib and gs = demo_games and ex = "''game.exe''"
        and ts = 1704153590 and dur = 20 and w = stopping_world]
    by (simp add: demo_game stopping_world_def)
qed

lemma stopping_tick:
  "pw_tick demo_lib (fst started) [] (snd started)
     = (Inr (), \<lparr>games = demo_games, running = []\<rparr>,
        snd (pw_record demo_lib demo_games ''game.exe'' 1704153590 20 stopping_world))"
proof -
  have d: "py_int (clock (snd started) (clock_reads (snd started)) - 1704153590) = 20"
    unfolding started_eq
    by (simp add: run_world_def quiet_world_def run_clock_def py_int_def)
  have w: "(snd started)\<lparr>clock_reads := Suc (clock_reads (snd started))\<rparr> = stopping_world"
    unfolding started_eq by (simp add: stopping_world_def)
  have f: "fst started = \<lparr>games = demo_games, running = [(''game.exe'', 1704153590)]\<rparr>"
    unfolding started_eq by simp
  show ?thesis
    unfolding f demo_tick_stop d w stopping_result(1) ..
qed

theorem C2_stop_pairs_with_start_witness:
  "pw_init demo_games run_world = (Inr fresh_watcher, snd (pw_init demo_games run_world))
   \<and> starts ''game.exe'' (log run_world) = stops ''game.exe'' (log run_world)
   \<and> map_of (running (fst started)) ''game.exe'' = Some 1704153590
   \<and> Shutdown ''game.exe'' ''Game'' 20
       \<in> set (new_events (snd started) (snd (snd (pw_tick demo_lib (fst started) [] (snd started)))))
   \<and> starts ''game.exe'' (log (snd started)) = stops ''game.exe'' (log (snd started)) + 1
   \<and> stops ''game.exe''
        (new_events (snd started) (snd (snd (pw_tick demo_lib (fst started) [] (snd started))))) = 1
   \<and> clock (snd started) 1 = 17041536105 / 10
   \<and> py_int (clock (snd started) 1 - 1704153590) = 20
   \<and> map_of (running (fst (snd (pw_tick demo_lib (fst started) [] (snd started))))) ''game.exe''
       = None
   \<and> data_file (snd (snd (pw_tick demo_lib (fst started) [] (snd started)))) = Some text_first"
proof -
  let ?T = "pw_tick demo_lib (fst started) [] (snd started)"
  have i: "pw_init demo_games run_world = (Inr fresh_watcher, snd (pw_init demo_games run_world))"
    unfolding demo_init by simp
  have b: "starts ''game.exe'' (log run_world) = stops ''game.exe'' (log run_world)"
    by (simp add: run_world_def quiet_world_def starts_def stops_def)
  have m: "monitor_loop demo_lib [[demo_proc]] (fresh_watcher, snd (pw_init demo_games run_world))
      = (fst started, snd started)"
    unfolding started_def by (rule prod.collapse [symmetric])
  have t: "?T = (Inr (), fst (snd ?T), snd (snd ?T))"
    unfolding stopping_tick by simp
  have ls: "log (snd started) = log stopping_world"
    unfolding started_eq by (simp add: stopping_world_def)
  have ev: "new_events (snd started) (snd (snd ?T)) = [Shutdown ''game.exe'' ''Game'' 20]"
    unfolding stopping_tick new_events_def by (simp add: stopping_result(3) ls)
  then have mem: "Shutdown ''game.exe'' ''Game'' 20 \<in> set (new_events (snd started) (snd (snd ?T)))"
    by simp
  have rn: "map_of (running (fst started)) ''game.exe'' = Some 1704153590"
    unfolding started_eq by simp
  have ck: "clock (snd started) 1 = 17041536105 / 10"
    "py_int (clock (snd started) 1 - 1704153590) = 20"
    unfolding started_eq
    by (simp_all add: run_world_def quiet_world_def run_clock_def py_int_def)
  have df: "data_file (snd (snd ?T)) = Some text_first"
    unfolding stopping_tick by (simp add: stopping_result(2))
  from C2_stop_pairs_with_start [OF i b m t mem]
  have c: "starts ''game.exe'' (log (snd started)) = stops ''game.exe'' (log (snd started)) + 1"
    "stops ''game.exe'' (new_events (snd started) (snd (snd ?T))) = 1"
    "map_of (running (fst (snd ?T))) ''game.exe'' = None"
    by blast+
  from i b rn mem c ck df show ?thesis
    by blast
qed

end
